theory Spec2Isabelle
  imports Main "HOL-Library.Sublist" "HOL-Library.AList"
begin

section \<open>Embedding of \<open>src/naverProductScraper.js\<close>\<close>

text \<open>
  The scraper is JavaScript driving a browser. Its pure parts (string tests, proxy
  parsing, cookie filtering, merging and freshness) are HOL functions over lists and
  records. Its effectful parts (the attempt loops, the cookie hunt, the acquisition
  flow) are functions of an explicit environment that answers what each browser call
  did, and they return what the JavaScript returns together with the trace of calls
  it made. A thrown exception is the \<open>Inl\<close> side of a sum.
\<close>

subsection \<open>Strings\<close>

text \<open>
  A JavaScript string is a \<open>string\<close>. \<open>toLowerCase\<close> maps the 26 capital
  letters of ASCII to their small letters and leaves every other character alone.
\<close>

definition toLowerChar :: "char \<Rightarrow> char" where
  "toLowerChar c =
     (case map_of (zip ''ABCDEFGHIJKLMNOPQRSTUVWXYZ'' ''abcdefghijklmnopqrstuvwxyz'') c of
        Some l \<Rightarrow> l
      | None \<Rightarrow> c)"

definition toLowerCase :: "string \<Rightarrow> string" where
  "toLowerCase s = map toLowerChar s"

text \<open>\<open>s.includes(p)\<close>: \<open>p\<close> occurs in \<open>s\<close> as a contiguous run.\<close>

fun str_includes :: "string \<Rightarrow> string \<Rightarrow> bool" where
  "str_includes [] p = (p = [])"
| "str_includes (c # cs) p = (prefix p (c # cs) \<or> str_includes cs p)"

text \<open>
  \<open>s.split(d)\<close> for a one-character separator: the pieces between the separators,
  so one piece more than there are separators, and \<open>['']\<close> for the empty string.
\<close>

fun splitOn :: "char \<Rightarrow> string \<Rightarrow> string list" where
  "splitOn d [] = [[]]"
| "splitOn d (c # cs) =
     (if c = d then [] # splitOn d cs
      else (case splitOn d cs of p # ps \<Rightarrow> (c # p) # ps | [] \<Rightarrow> [[c]]))"

subsection \<open>ProxyConfig\<close>

record proxy_auth =
  username :: string
  password :: string

record ProxyConfig =
  server :: string
  auth :: "proxy_auth option"

text \<open>
  \<open>parseProxy\<close> works on the object the constructor has just initialised. The proxy
  string may be absent (\<open>None\<close>); absent and empty are both falsy.
\<close>

definition parseProxy :: "string option \<Rightarrow> ProxyConfig \<Rightarrow> ProxyConfig" where
  "parseProxy proxyString this =
     (case proxyString of
        None \<Rightarrow> this
      | Some s \<Rightarrow>
          if s = [] then this
          else
            (let parts = splitOn CHR '':'' s in
             if length parts = 4
             then this\<lparr>server := parts ! 0 @ '':'' @ parts ! 1,
                       auth := Some \<lparr>username = parts ! 2, password = parts ! 3\<rparr>\<rparr>
             else this\<lparr>server := s\<rparr>))"

definition newProxyConfig :: "string option \<Rightarrow> ProxyConfig" where
  "newProxyConfig proxyString = parseProxy proxyString \<lparr>server = [], auth = None\<rparr>"

definition getBrowserArgs :: "ProxyConfig \<Rightarrow> string list" where
  "getBrowserArgs this =
     (if server this \<noteq> [] then [''--proxy-server='' @ server this] else [])"

subsection \<open>Cookies\<close>

text \<open>
  A cookie as the browser's \<open>cookies()\<close> call and the snapshot file give it. The
  fields \<open>name\<close>, \<open>value\<close>, \<open>domain\<close> and \<open>path\<close> are strings, and the empty string
  is the falsy one. \<open>expires\<close> is a number of seconds since the epoch and may be
  missing; a missing field and the number 0 are both falsy.
\<close>

record cookie =
  cookieName :: string
  cookieValue :: string
  cookieDomain :: string
  cookiePath :: string
  cookieExpires :: "int option"

text \<open>
  The exclusion filter of \<open>findProductAndGetCookies\<close>:
  \<^verbatim>\<open>cookies.filter(cookie => { ...
       return !cookieKey.includes('sus') && !cookieValue.includes('sus'); })\<close>
  where \<open>cookie.value || ''\<close> is the value itself, the empty string being the only
  falsy string.
\<close>

definition keepCookie :: "cookie \<Rightarrow> bool" where
  "keepCookie c =
     (let cookieKey = toLowerCase (cookieName c);
          cookieVal = toLowerCase (if cookieValue c \<noteq> [] then cookieValue c else [])
      in \<not> str_includes cookieKey ''sus'' \<and> \<not> str_includes cookieVal ''sus'')"

definition filterCookies :: "cookie list \<Rightarrow> cookie list" where
  "filterCookies cookies = filter keepCookie cookies"

text \<open>
  The specification's reading of the filter: a string contains \<open>p\<close> ignoring case
  when some contiguous run of it equals \<open>p\<close> after lowercasing both.
\<close>

definition containsIgnoringCase :: "string \<Rightarrow> string \<Rightarrow> bool" where
  "containsIgnoringCase s p = (\<exists>u w v. s = u @ w @ v \<and> toLowerCase w = toLowerCase p)"

text \<open>A cookie of the portal domain with the given name and value, for examples.\<close>

definition portalCookie :: "string \<Rightarrow> string \<Rightarrow> cookie" where
  "portalCookie n v =
     \<lparr>cookieName = n, cookieValue = v, cookieDomain = ''.naver.com'', cookiePath = ''/'',
      cookieExpires = None\<rparr>"

text \<open>
  What \<open>JSON.parse\<close> of the snapshot file hands to \<open>areCookiesFresh\<close> and
  \<open>mergeCookies\<close>: an array of cookies, or something that is no array.
\<close>

datatype 'a js_value = NotArray | JsArray "'a list"



text \<open>
  The key of \<open>mergeCookies\<close> is the string \<^verbatim>\<open>`${cookie.name}-${cookie.domain}`\<close>.
  Two cookies with the same name and the same domain have the same key; the key
  does not say where the name ends, so the converse needs names and domains that
  leave the hyphen unambiguous.
\<close>

definition cookieKey :: "cookie \<Rightarrow> string" where
  "cookieKey c = cookieName c @ ''-'' @ cookieDomain c"





text \<open>
  \<open>areCookiesFresh\<close> reads the clock (\<open>Date.now()\<close>, milliseconds): that is \<open>now\<close>.
  The \<open>for\<close> loop is \<open>expiryLoop\<close>, which answers whether the loop ran to its end
  without returning \<open>false\<close>; \<open>new Date(cookie.expires * 1000).getTime()\<close> is the
  product itself. The check of the file's age is inside a \<open>try\<close> whose \<open>catch\<close>
  only logs:
  \<^verbatim>\<open>const fs = require('fs');
  const stats = fs.statSync('naver_cookies.json');
  const fileAge = now - stats.mtime.getTime();\<close>
  \<open>fileMtime\<close> is the modification time of the file, \<open>None\<close> when \<open>statSync\<close>
  throws. \<open>requireBound\<close> says whether the name \<open>require\<close> is bound where the
  function runs. It is bound in a CommonJS module. This file is an ES module, it
  imports and exports with \<open>import\<close> and \<open>export\<close>, and there the name is not bound:
  the call throws a \<open>ReferenceError\<close> and the \<open>try\<close> block ends before \<open>statSync\<close>.
\<close>

definition maxAge :: int where
  "maxAge = 24 * 60 * 60 * 1000"

fun expiryLoop :: "int \<Rightarrow> cookie list \<Rightarrow> bool" where
  "expiryLoop now [] = True"
| "expiryLoop now (c # cs) =
     (case cookieExpires c of
        None \<Rightarrow> expiryLoop now cs
      | Some e \<Rightarrow>
          if e \<noteq> 0 then
            (let cookieTime = e * 1000 in
             if cookieTime < now then False else expiryLoop now cs)
          else expiryLoop now cs)"

definition areCookiesFresh :: "cookie js_value \<Rightarrow> int \<Rightarrow> bool \<Rightarrow> int option \<Rightarrow> bool" where
  "areCookiesFresh cookies now requireBound fileMtime =
     (case cookies of
        NotArray \<Rightarrow> False
      | JsArray cs \<Rightarrow>
          if cs = [] then False
          else if \<not> expiryLoop now cs then False
          else
            (case (if requireBound then fileMtime else None) of
               Some m \<Rightarrow> (let fileAge = now - m in if fileAge > maxAge then False else True)
             | None \<Rightarrow> True))"

text \<open>A portal cookie with the given expiry, for examples.\<close>

definition expiringCookie :: "string \<Rightarrow> int option \<Rightarrow> cookie" where
  "expiringCookie n e =
     \<lparr>cookieName = n, cookieValue = ''v'', cookieDomain = ''.naver.com'', cookiePath = ''/'',
      cookieExpires = e\<rparr>"

subsection \<open>PageValidator and validateProductPage\<close>

text \<open>
  The three pattern lists of \<open>PageValidator\<close> and the indicator list of
  \<open>validateProductPage\<close> hold ASCII patterns and patterns written in Hangul. The
  ASCII ones are listed below as the source has them; the others are a parameter
  (\<open>page_patterns\<close>): appended to each of the three pattern lists, the order of a
  list being of no consequence to \<open>some\<close>, and put at their places in the
  indicator list, which is searched in order. A page is given by its title and its
  URL.
\<close>

record page_patterns =
  captchaOther :: "string list"
  errorOther :: "string list"
  blockOther :: "string list"
  indicatorFirst :: "string list"
  indicatorMiddle :: "string list"

definition somePattern :: "string list \<Rightarrow> string \<Rightarrow> string \<Rightarrow> bool" where
  "somePattern patterns pageTitle url =
     list_ex (\<lambda>pattern.
        str_includes (toLowerCase pageTitle) (toLowerCase pattern) \<or>
        str_includes (toLowerCase url) (toLowerCase pattern)) patterns"

definition captchaPatterns :: "page_patterns \<Rightarrow> string list" where
  "captchaPatterns pp =
     [''Captcha'', ''captcha'', ''CAPTCHA'', ''verification'', ''Verification'',
      ''Security'', ''security'', ''Confirm'', ''confirm'',
      ''Robot'', ''robot'', ''Automation'', ''automation''] @ captchaOther pp"

definition errorPatterns :: "page_patterns \<Rightarrow> string list" where
  "errorPatterns pp =
     [''Error'', ''404'', ''500'', ''Page Not Found'', ''Not Found'',
      ''Access Denied'', ''Forbidden'', ''403'', ''Server Error'', ''Internal Server Error'',
      ''error'', ''Error'', ''ERROR''] @ errorOther pp"

definition blockPatterns :: "page_patterns \<Rightarrow> string list" where
  "blockPatterns pp =
     [''Blocked'', ''blocked'', ''Limited'', ''limited'', ''Temporary'', ''temporary'',
      ''Suspended'', ''suspended'', ''Abnormal'', ''abnormal'', ''Suspicious'', ''suspicious'']
     @ blockOther pp"

definition errorIndicators :: "page_patterns \<Rightarrow> string list" where
  "errorIndicators pp =
     indicatorFirst pp @ [''Page Not Found'', ''404'', ''500'', ''Error'']
     @ indicatorMiddle pp @ [''Access Denied'', ''Forbidden'']"

definition isCaptchaPage :: "page_patterns \<Rightarrow> string \<Rightarrow> string \<Rightarrow> bool" where
  "isCaptchaPage pp pageTitle url = somePattern (captchaPatterns pp) pageTitle url"

definition isErrorPage :: "page_patterns \<Rightarrow> string \<Rightarrow> string \<Rightarrow> bool" where
  "isErrorPage pp pageTitle url = somePattern (errorPatterns pp) pageTitle url"

definition isBlockedPage :: "page_patterns \<Rightarrow> string \<Rightarrow> string \<Rightarrow> bool" where
  "isBlockedPage pp pageTitle url = somePattern (blockPatterns pp) pageTitle url"

text \<open>
  \<open>validateProductPage\<close> throws at the first check that matches, in the order
  captcha, error page, blocked page, error indicator; the warnings it only logs
  are left out. The value is \<open>Inl\<close> of what was detected, or \<open>Inr ()\<close> when the
  validation completes.
\<close>

datatype validation_error =
  CaptchaDetected | ErrorPageDetected | BlockedPageDetected | ErrorIndicatorDetected string

definition validateProductPage :: "page_patterns \<Rightarrow> string \<Rightarrow> string \<Rightarrow> validation_error + unit" where
  "validateProductPage pp pageTitle currentUrl =
     (if isCaptchaPage pp pageTitle currentUrl then Inl CaptchaDetected
      else if isErrorPage pp pageTitle currentUrl then Inl ErrorPageDetected
      else if isBlockedPage pp pageTitle currentUrl then Inl BlockedPageDetected
      else
        (case find (\<lambda>indicator. str_includes pageTitle indicator \<or> str_includes currentUrl indicator)
                (errorIndicators pp) of
           Some indicator \<Rightarrow> Inl (ErrorIndicatorDetected indicator)
         | None \<Rightarrow> Inr ()))"

definition asciiOnly :: page_patterns where
  "asciiOnly = \<lparr>captchaOther = [], errorOther = [], blockOther = [], indicatorFirst = [],
      indicatorMiddle = []\<rparr>"

subsection \<open>huntForCookies\<close>

text \<open>
  \<open>findXWtmCookie\<close> asks the page for its cookies and looks among them for the one
  named \<open>X-Wtm-Cpt-Tk\<close>. The argument is what \<open>page.cookies()\<close> answers, \<open>None\<close>
  when it rejects; the value is \<open>None\<close> when the call throws, \<open>Some None\<close> when it
  returns \<open>undefined\<close>, and \<open>Some (Some cookie)\<close> when it returns the cookie.
\<close>

definition findXWtmCookie :: "cookie list option \<Rightarrow> cookie option option" where
  "findXWtmCookie pageCookies =
     map_option (find (\<lambda>cookie. cookieName cookie = ''X-Wtm-Cpt-Tk'')) pageCookies"

text \<open>
  The environment of \<open>huntForCookies\<close>: \<open>pageCookies n\<close> is what \<open>page.cookies()\<close>
  answers to the recheck of cycle \<open>n\<close>; \<open>saveOk n\<close> says whether the three calls that
  follow a find in cycle \<open>n\<close> (\<open>page.cookies\<close>, \<open>setCookiesToPage\<close>, \<open>saveCookies\<close>)
  all return. None of these calls is inside a \<open>try\<close>, so a throw leaves the
  function. \<open>scrollDown\<close> catches its own errors and always returns, as do the
  delays. The value is what the function returns (\<open>Inr\<close>) or throws (\<open>Inl\<close>), with
  the calls it made: \<open>ScrollDown\<close> for a call of \<open>scrollDown\<close>, \<open>Recheck n\<close> for the
  call of \<open>findXWtmCookie\<close> in cycle \<open>n\<close>, \<open>SaveCookies\<close> for the three calls after
  a find.
\<close>

definition maxCookieScrollAttempts :: nat where
  "maxCookieScrollAttempts = 5"

datatype hunt_error = RecheckFailed | SaveFailed

datatype hunt_event = ScrollDown | Recheck nat | SaveCookies

function huntLoop ::
  "(nat \<Rightarrow> cookie list option) \<Rightarrow> (nat \<Rightarrow> bool) \<Rightarrow> nat \<Rightarrow> hunt_event list
   \<Rightarrow> (hunt_error + bool) \<times> hunt_event list" where
  "huntLoop pageCookies saveOk cookieScrollAttempts events =
     (if cookieScrollAttempts < maxCookieScrollAttempts then
        (case findXWtmCookie (pageCookies (cookieScrollAttempts + 1)) of
           None \<Rightarrow>
             (Inl RecheckFailed, events @ [ScrollDown, Recheck (cookieScrollAttempts + 1)])
         | Some (Some xWtmCookie) \<Rightarrow>
             (if saveOk (cookieScrollAttempts + 1) then Inr True else Inl SaveFailed,
              events @ [ScrollDown, Recheck (cookieScrollAttempts + 1), SaveCookies])
         | Some None \<Rightarrow>
             huntLoop pageCookies saveOk (cookieScrollAttempts + 1)
               (events @ [ScrollDown, Recheck (cookieScrollAttempts + 1)]
                @ (if cookieScrollAttempts + 1 < maxCookieScrollAttempts then [ScrollDown]
                   else [])))
      else (Inr False, events))"
  by pat_completeness auto
termination
  by (relation "measure (\<lambda>(pageCookies, saveOk, cookieScrollAttempts, events).
        maxCookieScrollAttempts - cookieScrollAttempts)") auto

declare huntLoop.simps [simp del]

definition huntForCookies ::
  "(nat \<Rightarrow> cookie list option) \<Rightarrow> (nat \<Rightarrow> bool)
   \<Rightarrow> (hunt_error + bool) \<times> hunt_event list" where
  "huntForCookies pageCookies saveOk = huntLoop pageCookies saveOk 0 []"

fun isRecheck :: "hunt_event \<Rightarrow> bool" where
  "isRecheck (Recheck n) = True"
| "isRecheck e = False"

definition cycles :: "hunt_event list \<Rightarrow> nat" where
  "cycles events = length (filter isRecheck events)"

text \<open>
  One cycle that does not find the cookie and is not the last: scroll, wait and
  recheck, then scroll further.
\<close>

definition missedCycle :: "nat \<Rightarrow> hunt_event list" where
  "missedCycle n = [ScrollDown, Recheck n, ScrollDown]"

text \<open>
  Two pages for examples: on the first the cookie is there from the third recheck
  on, on the second it never is.
\<close>

definition presentFromThird :: "nat \<Rightarrow> cookie list option" where
  "presentFromThird n =
     Some (if 3 \<le> n then [portalCookie ''NNB'' ''abc'', portalCookie ''X-Wtm-Cpt-Tk'' ''t'']
           else [portalCookie ''NNB'' ''abc''])"

definition neverPresent :: "nat \<Rightarrow> cookie list option" where
  "neverPresent n = Some [portalCookie ''NNB'' ''abc'']"

definition savesAlways :: "nat \<Rightarrow> bool" where
  "savesAlways n = True"

subsection \<open>findProductAndGetCookies\<close>

text \<open>
  What the shopping page answers during one run: its URL; how the race between the
  extended behaviour simulation and its 60 second timer ended (\<open>None\<close> when the
  simulation finished, the message of the rejection otherwise); what \<open>cookies()\<close>
  returned (\<open>None\<close> when it threw); whether the snapshot could be written; whether
  the product links appeared within the wait; whether \<open>shoppingPage.$$('a')\<close>
  returned; and how the race of the product click ended. These answers are inputs
  with no relation assumed between them: the race does not cancel the simulation,
  which goes on acting on the page after its timer has fired, and whatever that
  does to the later calls is in their answers.

  The timer rejects with the message of \<open>humanBehaviourTimeout\<close>. The \<open>catch\<close> after
  the race logs the message, and a second line when the message contains
  \<open>timeout\<close>; it rethrows nothing. The calls outside every \<open>try\<close> are
  \<open>cookies()\<close>, \<open>saveCookies\<close> and, in the \<open>catch\<close> of the wait for the product
  links, \<open>shoppingPage.$$('a')\<close>: a throw of one of them leaves the function. The
  logger and \<open>url()\<close>, which reads a field of the page, are taken to return. The
  value is the list of the steps made and the error thrown, if any. The step
  \<open>ClickProduct\<close> is the call of \<open>clickProductAndGetNACookie\<close>, which clicks a
  product link, validates the page and looks for the cookie \<open>NA_CO\<close>; it calls
  neither \<open>findXWtmCookie\<close> nor \<open>huntForCookies\<close>.
\<close>

record shopping_page =
  pageUrl :: string
  behaviour :: "string option"
  harvested :: "cookie list option"
  saveSucceeds :: bool
  productLinksAppear :: bool
  listLinksSucceeds :: bool
  productClick :: "string option"

datatype acquisition_error = NotOnShoppingPage | HarvestThrows | SaveThrows | ListLinksThrows

datatype acquisition_step =
  WaitBeforeBehaviour | RunExtendedBehaviour | LogBehaviourError string | LogBehaviourTimeout
  | HarvestCookies | SaveFiltered "cookie list" | WaitProductLinks | ForceScroll | ListLinks
  | ClickProduct | LogClickError string | LogClickTimeout

definition humanBehaviourTimeout :: "string option" where
  "humanBehaviourTimeout = Some ''Human behavior timeout''"

definition behaviourSteps :: "string option \<Rightarrow> acquisition_step list" where
  "behaviourSteps race =
     (case race of
        None \<Rightarrow> [RunExtendedBehaviour]
      | Some message \<Rightarrow>
          [RunExtendedBehaviour, LogBehaviourError message]
          @ (if str_includes message ''timeout'' then [LogBehaviourTimeout] else []))"

definition clickSteps :: "string option \<Rightarrow> acquisition_step list" where
  "clickSteps race =
     (case race of
        None \<Rightarrow> [ClickProduct]
      | Some message \<Rightarrow>
          [ClickProduct, LogClickError message]
          @ (if str_includes message ''timeout'' then [LogClickTimeout] else []))"

definition findProductAndGetCookies ::
  "shopping_page \<Rightarrow> acquisition_step list \<times> acquisition_error option" where
  "findProductAndGetCookies shoppingPage =
     (if \<not> str_includes (pageUrl shoppingPage) ''shopping'' then ([], Some NotOnShoppingPage)
      else
        (case harvested shoppingPage of
           None \<Rightarrow>
             ([WaitBeforeBehaviour] @ behaviourSteps (behaviour shoppingPage) @ [HarvestCookies],
              Some HarvestThrows)
         | Some cookies \<Rightarrow>
             if \<not> saveSucceeds shoppingPage then
               ([WaitBeforeBehaviour] @ behaviourSteps (behaviour shoppingPage)
                @ [HarvestCookies, SaveFiltered (filterCookies cookies)],
                Some SaveThrows)
             else if productLinksAppear shoppingPage then
               ([WaitBeforeBehaviour] @ behaviourSteps (behaviour shoppingPage)
                @ [HarvestCookies, SaveFiltered (filterCookies cookies), WaitProductLinks]
                @ clickSteps (productClick shoppingPage),
                None)
             else if \<not> listLinksSucceeds shoppingPage then
               ([WaitBeforeBehaviour] @ behaviourSteps (behaviour shoppingPage)
                @ [HarvestCookies, SaveFiltered (filterCookies cookies), WaitProductLinks,
                   ForceScroll, ListLinks],
                Some ListLinksThrows)
             else
               ([WaitBeforeBehaviour] @ behaviourSteps (behaviour shoppingPage)
                @ [HarvestCookies, SaveFiltered (filterCookies cookies), WaitProductLinks,
                   ForceScroll, ListLinks]
                @ clickSteps (productClick shoppingPage),
                None)))"

text \<open>
  Two shopping pages for examples: on both the harvest holds no cookie named
  \<open>X-Wtm-Cpt-Tk\<close>; on the first every call returns in time, on the second the
  timer of the behaviour simulation fires and the product links do not appear.
\<close>

definition shoppingHome :: shopping_page where
  "shoppingHome =
     \<lparr>pageUrl = ''https://shopping.naver.com/ns/home'', behaviour = None,
      harvested = Some [portalCookie ''NNB'' ''abc'', portalCookie ''tok'' ''xSUSy''],
      saveSucceeds = True, productLinksAppear = True, listLinksSucceeds = True,
      productClick = None\<rparr>"

definition slowShoppingHome :: shopping_page where
  "slowShoppingHome =
     \<lparr>pageUrl = ''https://shopping.naver.com/ns/home'', behaviour = humanBehaviourTimeout,
      harvested = Some [portalCookie ''NNB'' ''abc'', portalCookie ''tok'' ''xSUSy''],
      saveSucceeds = True, productLinksAppear = False, listLinksSucceeds = True,
      productClick = None\<rparr>"

subsection \<open>scrape\<close>

text \<open>
  The product URL reaches \<open>scrape\<close> as the caller had it: a string, or, when the
  request repeated the query parameter, an array of strings. On the second attempt
  \<open>scrape\<close> calls \<open>productUrl.split('?')\<close> and keeps the first part; the call is
  before the \<open>try\<close> of the attempt, and an array has no \<open>split\<close>, so there the call
  throws a \<open>TypeError\<close> that nothing in \<open>scrape\<close> catches.
\<close>

definition MAX_RETRIES :: nat where
  "MAX_RETRIES = 3"

datatype url_value = UrlString string | UrlArray "string list"

datatype scrape_exception = TypeError

definition splitProductUrl :: "url_value \<Rightarrow> scrape_exception + url_value" where
  "splitProductUrl productUrl =
     (case productUrl of
        UrlString s \<Rightarrow> Inr (UrlString (splitOn CHR ''?'' s ! 0))
      | UrlArray urls \<Rightarrow> Inl TypeError)"

text \<open>
  One attempt of \<open>scrape\<close> builds the proxy configuration and the browser manager,
  launches a browser, sets up a page and calls \<open>accessProductPageWithCookies\<close>, all
  inside one \<open>try\<close>. The environment answers, for the attempt number and the URL in
  use, how far the attempt got: each of the first six outcomes is an exception
  caught by the loop's \<open>catch\<close>, \<open>StateFalsy\<close> is a returned value that is falsy,
  \<open>StateFound\<close> a returned page state. \<open>attemptEvents\<close> lists the calls of an attempt:
  the browser is closed whenever it was launched, and the \<open>catch\<close> waits before the
  next attempt. Inside the \<open>catch\<close>, \<open>closeBrowser\<close> catches its own errors and the
  delay cannot throw; the caught value is taken to be an object, so that reading
  its message returns, and the logger to return.
\<close>

datatype 'r attempt_outcome =
  ConfigFails | LaunchFails | SetupFails | LoadCookiesFails | NavigationFails | StateMissing
  | StateFalsy | StateFound 'r

datatype scrape_event =
  Launch nat | Navigate nat url_value | CloseBrowser nat | CatchDelay nat

record scrape_failure =
  failError :: string
  failMessage :: string
  failProductUrl :: url_value

datatype 'r scrape_result = Extracted 'r | Failed scrape_failure

definition attemptResult :: "'r attempt_outcome \<Rightarrow> 'r option" where
  "attemptResult outcome = (case outcome of StateFound r \<Rightarrow> Some r | _ \<Rightarrow> None)"

definition attemptEvents :: "nat \<Rightarrow> url_value \<Rightarrow> 'r attempt_outcome \<Rightarrow> scrape_event list" where
  "attemptEvents n url outcome =
     (case outcome of
        ConfigFails \<Rightarrow> [CatchDelay n]
      | LaunchFails \<Rightarrow> [Launch n, CatchDelay n]
      | SetupFails \<Rightarrow> [Launch n, CloseBrowser n, CatchDelay n]
      | LoadCookiesFails \<Rightarrow> [Launch n, CloseBrowser n, CatchDelay n]
      | NavigationFails \<Rightarrow> [Launch n, Navigate n url, CloseBrowser n, CatchDelay n]
      | StateMissing \<Rightarrow> [Launch n, Navigate n url, CloseBrowser n, CatchDelay n]
      | StateFalsy \<Rightarrow> [Launch n, Navigate n url, CloseBrowser n]
      | StateFound r \<Rightarrow> [Launch n, Navigate n url, CloseBrowser n])"

definition failureMessage :: string where
  "failureMessage = ''Tidak bisa akses smartstore atau cookie X-Wtm-Cpt-Tk tidak ditemukan setelah semua percobaan''"

text \<open>
  The loop of \<open>scrape\<close>. The value is what \<open>scrape\<close> returns (\<open>Inr\<close>) or throws
  (\<open>Inl\<close>), with the calls made.
\<close>

function scrapeLoop ::
  "(nat \<Rightarrow> url_value \<Rightarrow> 'r attempt_outcome) \<Rightarrow> nat \<Rightarrow> url_value \<Rightarrow> 'r option
   \<Rightarrow> scrape_event list \<Rightarrow> (scrape_exception + 'r scrape_result) \<times> scrape_event list" where
  "scrapeLoop env attempt productUrl result events =
     (if attempt < MAX_RETRIES \<and> result = None then
        (case (if attempt + 1 = 2 then splitProductUrl productUrl else Inr productUrl) of
           Inl exception \<Rightarrow> (Inl exception, events)
         | Inr url \<Rightarrow>
             scrapeLoop env (attempt + 1) url (attemptResult (env (attempt + 1) url))
               (events @ attemptEvents (attempt + 1) url (env (attempt + 1) url)))
      else
        (case result of
           None \<Rightarrow>
             (Inr (Failed \<lparr>failError = ''SMARTSTORE_ACCESS_FAILED'',
                           failMessage = failureMessage,
                           failProductUrl = productUrl\<rparr>), events)
         | Some r \<Rightarrow> (Inr (Extracted r), events)))"
  by pat_completeness auto
termination
  by (relation "measure (\<lambda>(env, attempt, productUrl, result, events). MAX_RETRIES - attempt)") auto

declare scrapeLoop.simps [simp del]

definition scrape ::
  "(nat \<Rightarrow> url_value \<Rightarrow> 'r attempt_outcome) \<Rightarrow> url_value
   \<Rightarrow> (scrape_exception + 'r scrape_result) \<times> scrape_event list" where
  "scrape env productUrl = scrapeLoop env 0 productUrl None []"

fun isNavigate :: "scrape_event \<Rightarrow> bool" where
  "isNavigate (Navigate n u) = True"
| "isNavigate e = False"

definition alwaysMissing :: "nat \<Rightarrow> url_value \<Rightarrow> unit attempt_outcome" where
  "alwaysMissing n url = StateMissing"

subsection \<open>initializeCookies\<close>

text \<open>
  One attempt of \<open>initializeCookies\<close>: \<open>launch\<close> throws, or \<open>setupPage\<close> throws, or
  \<open>browseNaverAndGetCookies\<close> throws or returns. \<open>browseNaverAndGetCookies\<close> closes the
  browser in its \<open>finally\<close> block whatever happens; the \<open>catch\<close> of the loop calls
  \<open>closeBrowser\<close> again when a browser was launched. \<open>initAttempt\<close> is the body of the
  loop up to that point: whether the attempt succeeded, and the calls it made.
\<close>

datatype init_outcome = LaunchThrows | SetupThrows | BrowseThrows | BrowseReturns

datatype init_event = LaunchCall nat | CloseCall nat | RetryDelay nat

definition browseNaverAndGetCookies :: "nat \<Rightarrow> bool \<Rightarrow> bool \<times> init_event list" where
  "browseNaverAndGetCookies attempt completes = (completes, [CloseCall attempt])"

definition initAttempt :: "nat \<Rightarrow> init_outcome \<Rightarrow> bool \<times> init_event list" where
  "initAttempt attempt outcome =
     (case outcome of
        LaunchThrows \<Rightarrow> (False, [LaunchCall attempt])
      | SetupThrows \<Rightarrow> (False, [LaunchCall attempt, CloseCall attempt])
      | BrowseThrows \<Rightarrow>
          (False, LaunchCall attempt # snd (browseNaverAndGetCookies attempt False)
                  @ [CloseCall attempt])
      | BrowseReturns \<Rightarrow>
          (True, LaunchCall attempt # snd (browseNaverAndGetCookies attempt True)))"

function initLoop ::
  "(nat \<Rightarrow> init_outcome) \<Rightarrow> nat \<Rightarrow> bool \<Rightarrow> init_event list \<Rightarrow> bool \<times> init_event list" where
  "initLoop env attempt success events =
     (if attempt < MAX_RETRIES \<and> \<not> success then
        (if fst (initAttempt (attempt + 1) (env (attempt + 1)))
         then initLoop env (attempt + 1) True
                (events @ snd (initAttempt (attempt + 1) (env (attempt + 1))))
         else if attempt + 1 \<ge> MAX_RETRIES
         then (False, events @ snd (initAttempt (attempt + 1) (env (attempt + 1))))
         else initLoop env (attempt + 1) False
                (events @ snd (initAttempt (attempt + 1) (env (attempt + 1)))
                 @ [RetryDelay (attempt + 1)]))
      else (success, events))"
  by pat_completeness auto
termination
  by (relation "measure (\<lambda>(env, attempt, success, events). MAX_RETRIES - attempt)") auto

declare initLoop.simps [simp del]

definition initializeCookies :: "(nat \<Rightarrow> init_outcome) \<Rightarrow> bool \<times> init_event list" where
  "initializeCookies env = initLoop env 0 False []"

fun isLaunchCall :: "init_event \<Rightarrow> bool" where
  "isLaunchCall (LaunchCall n) = True"
| "isLaunchCall e = False"

fun isCloseCall :: "init_event \<Rightarrow> bool" where
  "isCloseCall (CloseCall n) = True"
| "isCloseCall e = False"

fun closeCallsOf :: "init_outcome \<Rightarrow> nat" where
  "closeCallsOf LaunchThrows = 0"
| "closeCallsOf SetupThrows = 1"
| "closeCallsOf BrowseThrows = 2"
| "closeCallsOf BrowseReturns = 1"

definition alwaysBrowseThrows :: "nat \<Rightarrow> init_outcome" where
  "alwaysBrowseThrows n = BrowseThrows"

definition alwaysLaunchThrows :: "nat \<Rightarrow> init_outcome" where
  "alwaysLaunchThrows n = LaunchThrows"

section \<open>Properties\<close>

subsection \<open>Strings\<close>

lemma str_includes_iff: "str_includes s p \<longleftrightarrow> (\<exists>u v. s = u @ p @ v)"
proof (induction s)
  case Nil
  then show ?case by auto
next
  case (Cons c cs)
  show ?case
  proof
    assume "str_includes (c # cs) p"
    then consider "prefix p (c # cs)" | "str_includes cs p" by auto
    then show "\<exists>u v. c # cs = u @ p @ v"
    proof cases
      case 1
      then obtain v where "c # cs = p @ v" by (auto simp: prefix_def)
      then have "c # cs = [] @ p @ v" by simp
      then show ?thesis by blast
    next
      case 2
      with Cons.IH obtain u v where "cs = u @ p @ v" by blast
      then have "c # cs = (c # u) @ p @ v" by simp
      then show ?thesis by blast
    qed
  next
    assume "\<exists>u v. c # cs = u @ p @ v"
    then obtain u v where uv: "c # cs = u @ p @ v" by blast
    show "str_includes (c # cs) p"
    proof (cases u)
      case Nil
      with uv have "prefix p (c # cs)" by (simp add: prefix_def)
      then show ?thesis by simp
    next
      case (Cons a u')
      with uv have "cs = u' @ p @ v" by simp
      with Cons.IH have "str_includes cs p" by blast
      then show ?thesis by simp
    qed
  qed
qed

lemma splitOn_nonempty: "splitOn d s \<noteq> []"
  by (induction s) (auto split: list.splits)

lemma length_splitOn: "length (splitOn d s) = Suc (length (filter (\<lambda>c. c = d) s))"
  by (induction s) (auto split: list.splits simp: splitOn_nonempty)

lemma splitOn_no_sep: "d \<notin> set s \<Longrightarrow> splitOn d s = [s]"
  by (induction s) auto

lemma splitOn_append_sep:
  "d \<notin> set p \<Longrightarrow> splitOn d (p @ d # rest) = p # splitOn d rest"
  by (induction p) auto

lemma splitOn_single: "splitOn d s = [p] \<Longrightarrow> s = p \<and> d \<notin> set p"
proof (induction s arbitrary: p)
  case Nil
  then show ?case by simp
next
  case (Cons c cs)
  then show ?case
    by (auto split: if_splits list.splits simp: splitOn_nonempty)
qed

lemma splitOn_cons:
  "splitOn d s = p # q # ps \<Longrightarrow> \<exists>s'. s = p @ d # s' \<and> splitOn d s' = q # ps \<and> d \<notin> set p"
proof (induction s arbitrary: p)
  case Nil
  then show ?case by simp
next
  case (Cons c cs)
  show ?case
  proof (cases "c = d")
    case True
    with Cons.prems show ?thesis by auto
  next
    case False
    with Cons.prems obtain p' where p: "p = c # p'" and "splitOn d cs = p' # q # ps"
      by (auto split: list.splits)
    with Cons.IH obtain s' where "cs = p' @ d # s'" "splitOn d s' = q # ps" "d \<notin> set p'"
      by blast
    with p False show ?thesis by auto
  qed
qed

lemma splitOn_four:
  assumes "splitOn d s = [p0, p1, p2, p3]"
  shows "s = p0 @ d # p1 @ d # p2 @ d # p3 \<and> d \<notin> set p0 \<and> d \<notin> set p1 \<and> d \<notin> set p2 \<and> d \<notin> set p3"
proof -
  from splitOn_cons [OF assms] obtain s1 where
    1: "s = p0 @ d # s1" "splitOn d s1 = [p1, p2, p3]" "d \<notin> set p0" by blast
  from splitOn_cons [OF 1(2)] obtain s2 where
    2: "s1 = p1 @ d # s2" "splitOn d s2 = [p2, p3]" "d \<notin> set p1" by blast
  from splitOn_cons [OF 2(2)] obtain s3 where
    3: "s2 = p2 @ d # s3" "splitOn d s3 = [p3]" "d \<notin> set p2" by blast
  from splitOn_single [OF 3(2)] have 4: "s3 = p3" "d \<notin> set p3" by simp_all
  from 1 2 3 4 show ?thesis by simp
qed

lemma splitOn_four_parts:
  assumes "d \<notin> set p0" "d \<notin> set p1" "d \<notin> set p2" "d \<notin> set p3"
  shows "splitOn d (p0 @ d # p1 @ d # p2 @ d # p3) = [p0, p1, p2, p3]"
  using assms by (simp add: splitOn_append_sep splitOn_no_sep)

lemma length_four: "length xs = 4 \<Longrightarrow> \<exists>a b c e. xs = [a, b, c, e]"
  by (cases xs; simp; rename_tac x ys; case_tac ys; simp; rename_tac x2 zs; case_tac zs; simp;
      rename_tac x3 ws; case_tac ws; simp)

subsection \<open>Proxy parsing\<close>

text \<open>
  Claim C10. \<open>parseProxy\<close> is total and has two shapes. An input made of four parts
  separated by three colons gives \<open>server\<close> the first two parts joined by a colon and
  \<open>auth\<close> the third part as username and the fourth as password. Every other
  non-empty input, a three-part one included, becomes \<open>server\<close> whole and leaves
  \<open>auth\<close> null. An input with exactly three colons always is of the four-part form.
  An empty or absent input leaves \<open>server\<close> empty and \<open>auth\<close> null, and
  \<open>getBrowserArgs\<close> then returns no argument.
\<close>

theorem parseProxy_shapes:
  "(CHR '':'' \<notin> set p0 \<and> CHR '':'' \<notin> set p1 \<and> CHR '':'' \<notin> set p2 \<and> CHR '':'' \<notin> set p3 \<longrightarrow>
      newProxyConfig (Some (p0 @ '':'' @ p1 @ '':'' @ p2 @ '':'' @ p3))
        = \<lparr>server = p0 @ '':'' @ p1, auth = Some \<lparr>username = p2, password = p3\<rparr>\<rparr>)
   \<and> (s \<noteq> [] \<and> length (filter (\<lambda>c. c = CHR '':'') s) \<noteq> 3 \<longrightarrow>
      newProxyConfig (Some s) = \<lparr>server = s, auth = None\<rparr>)
   \<and> (length (filter (\<lambda>c. c = CHR '':'') s) = 3 \<longrightarrow>
      (\<exists>q0 q1 q2 q3. s = q0 @ '':'' @ q1 @ '':'' @ q2 @ '':'' @ q3 \<and>
         CHR '':'' \<notin> set q0 \<and> CHR '':'' \<notin> set q1 \<and> CHR '':'' \<notin> set q2 \<and> CHR '':'' \<notin> set q3))
   \<and> newProxyConfig None = \<lparr>server = [], auth = None\<rparr>
   \<and> newProxyConfig (Some []) = \<lparr>server = [], auth = None\<rparr>
   \<and> getBrowserArgs (newProxyConfig None) = []
   \<and> getBrowserArgs (newProxyConfig (Some [])) = []"
proof (intro conjI impI)
  assume "CHR '':'' \<notin> set p0 \<and> CHR '':'' \<notin> set p1 \<and> CHR '':'' \<notin> set p2 \<and> CHR '':'' \<notin> set p3"
  then have "splitOn CHR '':'' (p0 @ CHR '':'' # p1 @ CHR '':'' # p2 @ CHR '':'' # p3) = [p0, p1, p2, p3]"
    by (simp add: splitOn_four_parts)
  then show "newProxyConfig (Some (p0 @ '':'' @ p1 @ '':'' @ p2 @ '':'' @ p3))
        = \<lparr>server = p0 @ '':'' @ p1, auth = Some \<lparr>username = p2, password = p3\<rparr>\<rparr>"
    by (simp add: newProxyConfig_def parseProxy_def)
next
  assume "s \<noteq> [] \<and> length (filter (\<lambda>c. c = CHR '':'') s) \<noteq> 3"
  then show "newProxyConfig (Some s) = \<lparr>server = s, auth = None\<rparr>"
    by (simp add: newProxyConfig_def parseProxy_def length_splitOn)
next
  assume "length (filter (\<lambda>c. c = CHR '':'') s) = 3"
  then have "length (splitOn CHR '':'' s) = 4"
    by (simp add: length_splitOn)
  then obtain a b c e where "splitOn CHR '':'' s = [a, b, c, e]"
    using length_four by blast
  from splitOn_four [OF this]
  have "s = a @ '':'' @ b @ '':'' @ c @ '':'' @ e \<and>
      CHR '':'' \<notin> set a \<and> CHR '':'' \<notin> set b \<and> CHR '':'' \<notin> set c \<and> CHR '':'' \<notin> set e"
    by simp
  then show "\<exists>q0 q1 q2 q3. s = q0 @ '':'' @ q1 @ '':'' @ q2 @ '':'' @ q3 \<and>
         CHR '':'' \<notin> set q0 \<and> CHR '':'' \<notin> set q1 \<and> CHR '':'' \<notin> set q2 \<and> CHR '':'' \<notin> set q3"
    by blast
qed (simp_all add: newProxyConfig_def parseProxy_def getBrowserArgs_def)

theorem parseProxy_shapes_witness:
  "CHR '':'' \<notin> set ''10.0.0.1'' \<and> CHR '':'' \<notin> set ''8080'' \<and> CHR '':'' \<notin> set ''user'' \<and> CHR '':'' \<notin> set ''pw''
   \<and> newProxyConfig (Some ''10.0.0.1:8080:user:pw'')
        = \<lparr>server = ''10.0.0.1:8080'', auth = Some \<lparr>username = ''user'', password = ''pw''\<rparr>\<rparr>
   \<and> ''h:80:u'' \<noteq> [] \<and> length (filter (\<lambda>c. c = CHR '':'') ''h:80:u'') \<noteq> 3
   \<and> newProxyConfig (Some ''h:80:u'') = \<lparr>server = ''h:80:u'', auth = None\<rparr>"
proof -
  have h1: "CHR '':'' \<notin> set ''10.0.0.1'' \<and> CHR '':'' \<notin> set ''8080'' \<and> CHR '':'' \<notin> set ''user'' \<and> CHR '':'' \<notin> set ''pw''"
    by simp
  have h2: "''h:80:u'' \<noteq> [] \<and> length (filter (\<lambda>c. c = CHR '':'') ''h:80:u'') \<noteq> 3"
    by simp
  from parseProxy_shapes [of "''10.0.0.1''" "''8080''" "''user''" "''pw''" "''h:80:u''"] h1 h2
  show ?thesis by simp
qed

subsection \<open>The exclusion filter\<close>

lemma toLowerCase_includes_iff:
  "str_includes (toLowerCase s) p \<longleftrightarrow> (\<exists>u w v. s = u @ w @ v \<and> toLowerCase w = p)"
proof
  assume "str_includes (toLowerCase s) p"
  then have "\<exists>a b. map toLowerChar s = a @ p @ b"
    by (simp only: str_includes_iff toLowerCase_def)
  then obtain a b where "map toLowerChar s = a @ p @ b"
    by (elim exE)
  then have "\<exists>us vs. s = us @ vs \<and> a = map toLowerChar us \<and> p @ b = map toLowerChar vs"
    by (rule map_eq_append_conv [THEN iffD1])
  then obtain u r where s: "s = u @ r" and r: "p @ b = map toLowerChar r"
    by (elim exE conjE)
  from r have "\<exists>us vs. r = us @ vs \<and> p = map toLowerChar us \<and> b = map toLowerChar vs"
    by (rule append_eq_map_conv [THEN iffD1])
  then obtain w v where w: "r = w @ v" "p = map toLowerChar w"
    by (elim exE conjE)
  from s w have "s = u @ w @ v \<and> toLowerCase w = p"
    by (simp add: toLowerCase_def)
  then show "\<exists>u w v. s = u @ w @ v \<and> toLowerCase w = p"
    by (intro exI)
next
  assume "\<exists>u w v. s = u @ w @ v \<and> toLowerCase w = p"
  then obtain u w v where "s = u @ w @ v" "toLowerCase w = p"
    by (elim exE conjE)
  then have "toLowerCase s = toLowerCase u @ p @ toLowerCase v"
    by (simp add: toLowerCase_def)
  then have "\<exists>a b. toLowerCase s = a @ p @ b"
    by (intro exI)
  then show "str_includes (toLowerCase s) p"
    by (simp only: str_includes_iff)
qed

lemma lower_sus: "toLowerCase ''sus'' = ''sus''"
  by (simp add: toLowerCase_def toLowerChar_def)

lemma keep_NNB: "keepCookie (portalCookie ''NNB'' ''abc'')"
  by (simp add: keepCookie_def portalCookie_def toLowerCase_def toLowerChar_def)

lemma drop_NID_SuS: "\<not> keepCookie (portalCookie ''NID_SuS'' ''1'')"
  by (simp add: keepCookie_def portalCookie_def toLowerCase_def toLowerChar_def)

lemma drop_xSUSy: "\<not> keepCookie (portalCookie ''tok'' ''xSUSy'')"
  by (simp add: keepCookie_def portalCookie_def toLowerCase_def toLowerChar_def)

text \<open>
  Claim C9. The exclusion filter keeps the order of the harvested list and removes
  exactly the cookies whose name or value contains \<open>sus\<close> ignoring case: every
  cookie it retains has \<open>sus\<close> neither in its lowercased name nor in its lowercased
  value, and every cookie of the input without it in both is retained.
\<close>

theorem filterCookies_exact:
  "filterCookies cookies =
     filter (\<lambda>c. \<not> containsIgnoringCase (cookieName c) ''sus'' \<and>
                 \<not> containsIgnoringCase (cookieValue c) ''sus'') cookies
   \<and> (\<forall>c \<in> set (filterCookies cookies).
         \<not> str_includes (toLowerCase (cookieName c)) ''sus'' \<and>
         \<not> str_includes (toLowerCase (cookieValue c)) ''sus'')
   \<and> (\<forall>c \<in> set cookies.
         \<not> str_includes (toLowerCase (cookieName c)) ''sus'' \<and>
         \<not> str_includes (toLowerCase (cookieValue c)) ''sus'' \<longrightarrow> c \<in> set (filterCookies cookies))"
proof -
  have v: "(if cookieValue c \<noteq> [] then cookieValue c else []) = cookieValue c" for c :: cookie
    by simp
  have k: "keepCookie c \<longleftrightarrow>
      \<not> str_includes (toLowerCase (cookieName c)) ''sus'' \<and>
      \<not> str_includes (toLowerCase (cookieValue c)) ''sus''" for c
    unfolding keepCookie_def Let_def v by simp
  have s: "str_includes (toLowerCase x) ''sus'' \<longleftrightarrow> containsIgnoringCase x ''sus''" for x
    unfolding toLowerCase_includes_iff containsIgnoringCase_def lower_sus by simp
  have f: "filter keepCookie cookies =
      filter (\<lambda>c. \<not> containsIgnoringCase (cookieName c) ''sus'' \<and>
                  \<not> containsIgnoringCase (cookieValue c) ''sus'') cookies"
    by (rule filter_cong [OF refl]) (simp add: k s)
  have r: "\<forall>c \<in> set (filter keepCookie cookies).
      \<not> str_includes (toLowerCase (cookieName c)) ''sus'' \<and>
      \<not> str_includes (toLowerCase (cookieValue c)) ''sus''"
    by (simp add: k)
  have c: "\<forall>c \<in> set cookies.
      \<not> str_includes (toLowerCase (cookieName c)) ''sus'' \<and>
      \<not> str_includes (toLowerCase (cookieValue c)) ''sus'' \<longrightarrow>
      c \<in> set (filter keepCookie cookies)"
    by (simp add: k)
  show ?thesis
    unfolding filterCookies_def by (rule conjI [OF f conjI [OF r c]])
qed

theorem filterCookies_exact_witness:
  "portalCookie ''NNB'' ''abc''
     \<in> set (filterCookies [portalCookie ''NID_SuS'' ''1'', portalCookie ''NNB'' ''abc'',
                            portalCookie ''tok'' ''xSUSy''])
   \<and> \<not> str_includes (toLowerCase (cookieName (portalCookie ''NNB'' ''abc''))) ''sus''
   \<and> \<not> str_includes (toLowerCase (cookieValue (portalCookie ''NNB'' ''abc''))) ''sus''
   \<and> filterCookies [portalCookie ''NID_SuS'' ''1'', portalCookie ''NNB'' ''abc'',
                     portalCookie ''tok'' ''xSUSy''] = [portalCookie ''NNB'' ''abc'']"
proof -
  let ?L = "[portalCookie ''NID_SuS'' ''1'', portalCookie ''NNB'' ''abc'',
             portalCookie ''tok'' ''xSUSy'']"
  have e: "filterCookies ?L = [portalCookie ''NNB'' ''abc'']"
    by (simp add: filterCookies_def keep_NNB drop_NID_SuS drop_xSUSy)
  then have m: "portalCookie ''NNB'' ''abc'' \<in> set (filterCookies ?L)"
    by simp
  from filterCookies_exact [of ?L, THEN conjunct2, THEN conjunct1, rule_format, OF m]
  have n: "\<not> str_includes (toLowerCase (cookieName (portalCookie ''NNB'' ''abc''))) ''sus'' \<and>
         \<not> str_includes (toLowerCase (cookieValue (portalCookie ''NNB'' ''abc''))) ''sus''" .
  show ?thesis
    by (rule conjI [OF m conjI [OF conjunct1 [OF n] conjI [OF conjunct2 [OF n] e]]])
qed

subsection \<open>Merging the snapshot\<close>


























subsection \<open>Freshness of the snapshot\<close>

lemma expiryLoop_iff:
  "expiryLoop now cs \<longleftrightarrow>
     (\<forall>c \<in> set cs. \<forall>e. cookieExpires c = Some e \<and> e \<noteq> 0 \<longrightarrow> \<not> e * 1000 < now)"
  by (induction cs) (auto simp: Let_def split: option.splits)

text \<open>
  Where \<open>require\<close> is bound the function is what its comments say. It answers false
  for a value that is no array and for the empty array; false when some cookie has
  an expiry (an \<open>expires\<close> field that is present and not 0, as the test
  \<open>if (cookie.expires)\<close> reads it) whose time is earlier than now; false when the
  file's modification time lies more than 24 hours before now; and true otherwise.
\<close>

lemma areCookiesFresh_bound:
  "\<not> areCookiesFresh NotArray now True mtime
   \<and> \<not> areCookiesFresh (JsArray []) now True mtime
   \<and> ((\<exists>c \<in> set cs. \<exists>e. cookieExpires c = Some e \<and> e \<noteq> 0 \<and> e * 1000 < now) \<longrightarrow>
         \<not> areCookiesFresh (JsArray cs) now True mtime)
   \<and> ((\<exists>m. mtime = Some m \<and> now - m > 24 * 60 * 60 * 1000) \<longrightarrow>
         \<not> areCookiesFresh (JsArray cs) now True mtime)
   \<and> (cs \<noteq> []
        \<and> (\<forall>c \<in> set cs. \<forall>e. cookieExpires c = Some e \<and> e \<noteq> 0 \<longrightarrow> \<not> e * 1000 < now)
        \<and> (\<forall>m. mtime = Some m \<longrightarrow> now - m \<le> 24 * 60 * 60 * 1000) \<longrightarrow>
         areCookiesFresh (JsArray cs) now True mtime)"
proof (intro conjI impI)
  show "\<not> areCookiesFresh NotArray now True mtime"
    by (simp add: areCookiesFresh_def)
  show "\<not> areCookiesFresh (JsArray []) now True mtime"
    by (simp add: areCookiesFresh_def)
next
  assume "\<exists>c \<in> set cs. \<exists>e. cookieExpires c = Some e \<and> e \<noteq> 0 \<and> e * 1000 < now"
  then have "\<not> expiryLoop now cs"
    unfolding expiryLoop_iff by blast
  then show "\<not> areCookiesFresh (JsArray cs) now True mtime"
    by (simp add: areCookiesFresh_def)
next
  assume "\<exists>m. mtime = Some m \<and> now - m > 24 * 60 * 60 * 1000"
  then obtain m where "mtime = Some m" "now - m > maxAge"
    by (auto simp: maxAge_def)
  then show "\<not> areCookiesFresh (JsArray cs) now True mtime"
    by (simp add: areCookiesFresh_def)
next
  assume h: "cs \<noteq> []
        \<and> (\<forall>c \<in> set cs. \<forall>e. cookieExpires c = Some e \<and> e \<noteq> 0 \<longrightarrow> \<not> e * 1000 < now)
        \<and> (\<forall>m. mtime = Some m \<longrightarrow> now - m \<le> 24 * 60 * 60 * 1000)"
  then have l: "expiryLoop now cs"
    unfolding expiryLoop_iff by blast
  from h have "mtime = None \<or> (\<exists>m. mtime = Some m \<and> \<not> now - m > maxAge)"
    by (cases mtime) (auto simp: maxAge_def)
  with h l show "areCookiesFresh (JsArray cs) now True mtime"
    by (auto simp: areCookiesFresh_def)
qed

text \<open>
  Where \<open>require\<close> is not bound the age of the file has no part in the answer: the
  first three cases are as before, and every non-empty array without an expired
  cookie is fresh, however old the file.
\<close>

lemma areCookiesFresh_unbound:
  "areCookiesFresh (JsArray cs) now False mtime \<longleftrightarrow>
     cs \<noteq> [] \<and> (\<forall>c \<in> set cs. \<forall>e. cookieExpires c = Some e \<and> e \<noteq> 0 \<longrightarrow> \<not> e * 1000 < now)"
proof -
  have "areCookiesFresh (JsArray cs) now False mtime \<longleftrightarrow> cs \<noteq> [] \<and> expiryLoop now cs"
    by (simp add: areCookiesFresh_def)
  then show ?thesis
    by (simp only: expiryLoop_iff)
qed

text \<open>
  Claim C2 fails on the code as the repository runs it. The claim is what the
  function is written to do: false for a snapshot written more than 24 hours ago.
  In the ES module the call of \<open>require\<close> throws, the \<open>catch\<close> swallows it, and
  the function answers true for a snapshot of one cookie without expiry whose file
  is 100000000 ms old, more than the 86400000 ms of \<open>maxAge\<close>; with \<open>require\<close>
  bound the same input gives false.
\<close>

theorem areCookiesFresh_stale_file_unnoticed:
  "areCookiesFresh (JsArray [expiringCookie ''NNB'' None]) 200000000 False (Some 100000000)
   \<and> 200000000 - 100000000 > maxAge
   \<and> \<not> areCookiesFresh (JsArray [expiringCookie ''NNB'' None]) 200000000 True (Some 100000000)"
  by (simp add: areCookiesFresh_def expiringCookie_def maxAge_def)

subsection \<open>Page validation\<close>

text \<open>
  Claim C5. For every title and URL and whatever the further patterns are, the
  validation detects a captcha whenever the captcha list matches, also when the error
  list matches too, and then never reports an error page; it reports an error page
  exactly when the error list matches and the captcha list does not, a blocked page
  exactly when the blocked list matches and neither of the other two does, and it
  completes only when none of the three lists matches.
\<close>

theorem validateProductPage_precedence:
  "(isCaptchaPage pp t u \<longrightarrow> validateProductPage pp t u = Inl CaptchaDetected)
   \<and> (isCaptchaPage pp t u \<and> isErrorPage pp t u \<longrightarrow> validateProductPage pp t u \<noteq> Inl ErrorPageDetected)
   \<and> (\<not> isCaptchaPage pp t u \<and> isErrorPage pp t u \<longrightarrow>
         validateProductPage pp t u = Inl ErrorPageDetected)
   \<and> (\<not> isCaptchaPage pp t u \<and> \<not> isErrorPage pp t u \<and> isBlockedPage pp t u \<longrightarrow>
         validateProductPage pp t u = Inl BlockedPageDetected)
   \<and> (validateProductPage pp t u = Inl CaptchaDetected \<longrightarrow> isCaptchaPage pp t u)
   \<and> (validateProductPage pp t u = Inl ErrorPageDetected \<longrightarrow>
         \<not> isCaptchaPage pp t u \<and> isErrorPage pp t u)
   \<and> (validateProductPage pp t u = Inl BlockedPageDetected \<longrightarrow>
         \<not> isCaptchaPage pp t u \<and> \<not> isErrorPage pp t u \<and> isBlockedPage pp t u)
   \<and> (validateProductPage pp t u = Inr () \<longrightarrow>
         \<not> isCaptchaPage pp t u \<and> \<not> isErrorPage pp t u \<and> \<not> isBlockedPage pp t u)"
  by (simp add: validateProductPage_def split: option.splits)

lemma lower_title: "toLowerCase ''Captcha 404'' = ''captcha 404''"
  by (simp add: toLowerCase_def toLowerChar_def)

lemma lower_Captcha: "toLowerCase ''Captcha'' = ''captcha''"
  by (simp add: toLowerCase_def toLowerChar_def)

lemma lower_404: "toLowerCase ''404'' = ''404''"
  by (simp add: toLowerCase_def toLowerChar_def)

lemma both_captcha: "isCaptchaPage asciiOnly ''Captcha 404'' ''https://x/''"
proof -
  have "str_includes (toLowerCase ''Captcha 404'') (toLowerCase ''Captcha'')"
    unfolding lower_title lower_Captcha by simp
  moreover have "''Captcha'' \<in> set (captchaPatterns asciiOnly)"
    by (simp add: captchaPatterns_def)
  ultimately show ?thesis
    unfolding isCaptchaPage_def somePattern_def list_ex_iff by blast
qed

lemma both_error: "isErrorPage asciiOnly ''Captcha 404'' ''https://x/''"
proof -
  have "str_includes (toLowerCase ''Captcha 404'') (toLowerCase ''404'')"
    unfolding lower_title lower_404 by simp
  moreover have "''404'' \<in> set (errorPatterns asciiOnly)"
    by (simp add: errorPatterns_def)
  ultimately show ?thesis
    unfolding isErrorPage_def somePattern_def list_ex_iff by blast
qed

theorem validateProductPage_precedence_witness:
  "isCaptchaPage asciiOnly ''Captcha 404'' ''https://x/''
   \<and> isErrorPage asciiOnly ''Captcha 404'' ''https://x/''
   \<and> validateProductPage asciiOnly ''Captcha 404'' ''https://x/'' = Inl CaptchaDetected
   \<and> validateProductPage asciiOnly ''Captcha 404'' ''https://x/'' \<noteq> Inl ErrorPageDetected"
proof -
  let ?t = "''Captcha 404''" and ?u = "''https://x/''"
  note p = validateProductPage_precedence [of asciiOnly ?t ?u]
  have a: "validateProductPage asciiOnly ?t ?u = Inl CaptchaDetected"
    by (rule p [THEN conjunct1, THEN mp, OF both_captcha])
  have b: "validateProductPage asciiOnly ?t ?u \<noteq> Inl ErrorPageDetected"
    by (rule p [THEN conjunct2, THEN conjunct1, THEN mp, OF conjI [OF both_captcha both_error]])
  show ?thesis
    by (rule conjI [OF both_captcha conjI [OF both_error conjI [OF a b]]])
qed

subsection \<open>The behaviour timeout\<close>

lemma timeout_message: "str_includes ''Human behavior timeout'' ''timeout''"
  by simp

lemma behaviourSteps_timeout:
  "behaviourSteps humanBehaviourTimeout =
     [RunExtendedBehaviour, LogBehaviourError ''Human behavior timeout'', LogBehaviourTimeout]"
  unfolding behaviourSteps_def humanBehaviourTimeout_def by (simp add: timeout_message)

text \<open>
  Claim C7. When the 60 second timer of the extended behaviour simulation expires
  on a shopping page, \<open>findProductAndGetCookies\<close> logs the timeout and goes on to
  harvest the cookies, whatever the later calls then answer. It ends without an
  error exactly when the harvest, the save and, where the product links did not
  appear, the listing of the links return; when it throws, the error is the one of
  the first of these three calls that threw. When they return it has harvested,
  filtered and saved the cookies and clicked a product.
\<close>

theorem behaviour_timeout_absorbed:
  "behaviour p = humanBehaviourTimeout \<and> str_includes (pageUrl p) ''shopping'' \<longrightarrow>
     take 5 (fst (findProductAndGetCookies p)) =
       [WaitBeforeBehaviour, RunExtendedBehaviour,
        LogBehaviourError ''Human behavior timeout'', LogBehaviourTimeout, HarvestCookies]
     \<and> (snd (findProductAndGetCookies p) = None \<longleftrightarrow>
          harvested p \<noteq> None \<and> saveSucceeds p \<and> (productLinksAppear p \<or> listLinksSucceeds p))
     \<and> (snd (findProductAndGetCookies p) = Some HarvestThrows \<longleftrightarrow> harvested p = None)
     \<and> (snd (findProductAndGetCookies p) = Some SaveThrows \<longleftrightarrow>
          harvested p \<noteq> None \<and> \<not> saveSucceeds p)
     \<and> (snd (findProductAndGetCookies p) = Some ListLinksThrows \<longleftrightarrow>
          harvested p \<noteq> None \<and> saveSucceeds p \<and> \<not> productLinksAppear p \<and> \<not> listLinksSucceeds p)
     \<and> snd (findProductAndGetCookies p) \<noteq> Some NotOnShoppingPage
     \<and> (harvested p = Some cookies \<and> saveSucceeds p
          \<and> (productLinksAppear p \<or> listLinksSucceeds p) \<longrightarrow>
          fst (findProductAndGetCookies p) =
            [WaitBeforeBehaviour, RunExtendedBehaviour,
             LogBehaviourError ''Human behavior timeout'', LogBehaviourTimeout,
             HarvestCookies, SaveFiltered (filterCookies cookies), WaitProductLinks]
            @ (if productLinksAppear p then [] else [ForceScroll, ListLinks])
            @ clickSteps (productClick p))"
proof
  assume h: "behaviour p = humanBehaviourTimeout \<and> str_includes (pageUrl p) ''shopping''"
  then have b: "behaviourSteps (behaviour p) =
      [RunExtendedBehaviour, LogBehaviourError ''Human behavior timeout'', LogBehaviourTimeout]"
    by (simp add: behaviourSteps_timeout)
  from h have u: "str_includes (pageUrl p) ''shopping''" by simp
  have 1: "take 5 (fst (findProductAndGetCookies p)) =
       [WaitBeforeBehaviour, RunExtendedBehaviour,
        LogBehaviourError ''Human behavior timeout'', LogBehaviourTimeout, HarvestCookies]"
    by (simp add: findProductAndGetCookies_def u b split: option.splits)
  have 2: "snd (findProductAndGetCookies p) = None \<longleftrightarrow>
          harvested p \<noteq> None \<and> saveSucceeds p \<and> (productLinksAppear p \<or> listLinksSucceeds p)"
    by (auto simp: findProductAndGetCookies_def u split: option.splits)
  have 3: "snd (findProductAndGetCookies p) = Some HarvestThrows \<longleftrightarrow> harvested p = None"
    by (auto simp: findProductAndGetCookies_def u split: option.splits)
  have 4: "snd (findProductAndGetCookies p) = Some SaveThrows \<longleftrightarrow>
          harvested p \<noteq> None \<and> \<not> saveSucceeds p"
    by (auto simp: findProductAndGetCookies_def u split: option.splits)
  have 5: "snd (findProductAndGetCookies p) = Some ListLinksThrows \<longleftrightarrow>
          harvested p \<noteq> None \<and> saveSucceeds p \<and> \<not> productLinksAppear p \<and> \<not> listLinksSucceeds p"
    by (auto simp: findProductAndGetCookies_def u split: option.splits)
  have 6: "snd (findProductAndGetCookies p) \<noteq> Some NotOnShoppingPage"
    by (auto simp: findProductAndGetCookies_def u split: option.splits)
  have 7: "harvested p = Some cookies \<and> saveSucceeds p
          \<and> (productLinksAppear p \<or> listLinksSucceeds p) \<longrightarrow>
          fst (findProductAndGetCookies p) =
            [WaitBeforeBehaviour, RunExtendedBehaviour,
             LogBehaviourError ''Human behavior timeout'', LogBehaviourTimeout,
             HarvestCookies, SaveFiltered (filterCookies cookies), WaitProductLinks]
            @ (if productLinksAppear p then [] else [ForceScroll, ListLinks])
            @ clickSteps (productClick p)"
    by (auto simp: findProductAndGetCookies_def u b)
  show "take 5 (fst (findProductAndGetCookies p)) =
       [WaitBeforeBehaviour, RunExtendedBehaviour,
        LogBehaviourError ''Human behavior timeout'', LogBehaviourTimeout, HarvestCookies]
     \<and> (snd (findProductAndGetCookies p) = None \<longleftrightarrow>
          harvested p \<noteq> None \<and> saveSucceeds p \<and> (productLinksAppear p \<or> listLinksSucceeds p))
     \<and> (snd (findProductAndGetCookies p) = Some HarvestThrows \<longleftrightarrow> harvested p = None)
     \<and> (snd (findProductAndGetCookies p) = Some SaveThrows \<longleftrightarrow>
          harvested p \<noteq> None \<and> \<not> saveSucceeds p)
     \<and> (snd (findProductAndGetCookies p) = Some ListLinksThrows \<longleftrightarrow>
          harvested p \<noteq> None \<and> saveSucceeds p \<and> \<not> productLinksAppear p \<and> \<not> listLinksSucceeds p)
     \<and> snd (findProductAndGetCookies p) \<noteq> Some NotOnShoppingPage
     \<and> (harvested p = Some cookies \<and> saveSucceeds p
          \<and> (productLinksAppear p \<or> listLinksSucceeds p) \<longrightarrow>
          fst (findProductAndGetCookies p) =
            [WaitBeforeBehaviour, RunExtendedBehaviour,
             LogBehaviourError ''Human behavior timeout'', LogBehaviourTimeout,
             HarvestCookies, SaveFiltered (filterCookies cookies), WaitProductLinks]
            @ (if productLinksAppear p then [] else [ForceScroll, ListLinks])
            @ clickSteps (productClick p))"
    by (rule conjI [OF 1 conjI [OF 2 conjI [OF 3 conjI [OF 4 conjI [OF 5 conjI [OF 6 7]]]]]])
qed

lemma shoppingHome_filtered:
  "filterCookies [portalCookie ''NNB'' ''abc'', portalCookie ''tok'' ''xSUSy''] =
     [portalCookie ''NNB'' ''abc'']"
  by (simp add: filterCookies_def keep_NNB drop_xSUSy)

lemma slowShoppingHome_fields:
  "behaviour slowShoppingHome = humanBehaviourTimeout"
  "str_includes (pageUrl slowShoppingHome) ''shopping''"
  "harvested slowShoppingHome = Some [portalCookie ''NNB'' ''abc'', portalCookie ''tok'' ''xSUSy'']"
  "saveSucceeds slowShoppingHome"
  "\<not> productLinksAppear slowShoppingHome"
  "listLinksSucceeds slowShoppingHome"
  "productClick slowShoppingHome = None"
  by (simp_all add: slowShoppingHome_def)

theorem behaviour_timeout_absorbed_witness:
  "behaviour slowShoppingHome = humanBehaviourTimeout
   \<and> str_includes (pageUrl slowShoppingHome) ''shopping''
   \<and> harvested slowShoppingHome = Some [portalCookie ''NNB'' ''abc'', portalCookie ''tok'' ''xSUSy'']
   \<and> saveSucceeds slowShoppingHome \<and> listLinksSucceeds slowShoppingHome
   \<and> snd (findProductAndGetCookies slowShoppingHome) = None
   \<and> fst (findProductAndGetCookies slowShoppingHome) =
       [WaitBeforeBehaviour, RunExtendedBehaviour,
        LogBehaviourError ''Human behavior timeout'', LogBehaviourTimeout,
        HarvestCookies, SaveFiltered [portalCookie ''NNB'' ''abc''], WaitProductLinks,
        ForceScroll, ListLinks, ClickProduct]"
proof -
  have h: "behaviour slowShoppingHome = humanBehaviourTimeout
      \<and> str_includes (pageUrl slowShoppingHome) ''shopping''"
    by (simp only: slowShoppingHome_fields simp_thms)
  note r = behaviour_timeout_absorbed [of slowShoppingHome
      "[portalCookie ''NNB'' ''abc'', portalCookie ''tok'' ''xSUSy'']", THEN mp, OF h]
  have k: "harvested slowShoppingHome = Some [portalCookie ''NNB'' ''abc'', portalCookie ''tok'' ''xSUSy'']
      \<and> saveSucceeds slowShoppingHome
      \<and> (productLinksAppear slowShoppingHome \<or> listLinksSucceeds slowShoppingHome)"
    by (simp only: slowShoppingHome_fields simp_thms)
  have n: "harvested slowShoppingHome \<noteq> None \<and> saveSucceeds slowShoppingHome
      \<and> (productLinksAppear slowShoppingHome \<or> listLinksSucceeds slowShoppingHome)"
    by (simp add: slowShoppingHome_fields)
  from r [THEN conjunct2, THEN conjunct1, THEN iffD2, OF n]
  have e: "snd (findProductAndGetCookies slowShoppingHome) = None" .
  from r [THEN conjunct2, THEN conjunct2, THEN conjunct2, THEN conjunct2, THEN conjunct2,
      THEN conjunct2, THEN mp, OF k]
  have t: "fst (findProductAndGetCookies slowShoppingHome) =
       [WaitBeforeBehaviour, RunExtendedBehaviour,
        LogBehaviourError ''Human behavior timeout'', LogBehaviourTimeout,
        HarvestCookies, SaveFiltered [portalCookie ''NNB'' ''abc''], WaitProductLinks,
        ForceScroll, ListLinks, ClickProduct]"
    by (simp add: slowShoppingHome_fields shoppingHome_filtered clickSteps_def)
  show ?thesis
    by (rule conjI [OF slowShoppingHome_fields(1) conjI [OF slowShoppingHome_fields(2)
          conjI [OF slowShoppingHome_fields(3) conjI [OF slowShoppingHome_fields(4)
          conjI [OF slowShoppingHome_fields(6) conjI [OF e t]]]]]])
qed

subsection \<open>The cookie hunt\<close>

lemma portalCookie_name: "cookieName (portalCookie n v) = n"
  by (simp add: portalCookie_def)

lemma huntLoop_stop:
  "\<not> a < maxCookieScrollAttempts \<Longrightarrow> huntLoop pageCookies saveOk a evs = (Inr False, evs)"
  by (subst huntLoop.simps) simp

lemma huntLoop_present:
  "a < maxCookieScrollAttempts \<Longrightarrow> findXWtmCookie (pageCookies (Suc a)) = Some (Some c) \<Longrightarrow>
     huntLoop pageCookies saveOk a evs =
       (if saveOk (Suc a) then Inr True else Inl SaveFailed,
        evs @ [ScrollDown, Recheck (Suc a), SaveCookies])"
  by (subst huntLoop.simps) simp

lemma huntLoop_throws:
  "a < maxCookieScrollAttempts \<Longrightarrow> findXWtmCookie (pageCookies (Suc a)) = None \<Longrightarrow>
     huntLoop pageCookies saveOk a evs = (Inl RecheckFailed, evs @ [ScrollDown, Recheck (Suc a)])"
  by (subst huntLoop.simps) simp

lemma huntLoop_absent:
  "a < maxCookieScrollAttempts \<Longrightarrow> findXWtmCookie (pageCookies (Suc a)) = Some None \<Longrightarrow>
     huntLoop pageCookies saveOk a evs =
       huntLoop pageCookies saveOk (Suc a)
         (evs @ [ScrollDown, Recheck (Suc a)]
          @ (if Suc a < maxCookieScrollAttempts then [ScrollDown] else []))"
  by (subst huntLoop.simps) simp

lemma huntLoop_found:
  "a < k \<Longrightarrow> k \<le> maxCookieScrollAttempts \<Longrightarrow> findXWtmCookie (pageCookies k) = Some (Some c) \<Longrightarrow> saveOk k \<Longrightarrow>
   (\<forall>i. a < i \<and> i < k \<longrightarrow> findXWtmCookie (pageCookies i) = Some None) \<Longrightarrow>
     huntLoop pageCookies saveOk a evs =
       (Inr True, evs @ concat (map missedCycle [Suc a..<k]) @ [ScrollDown, Recheck k, SaveCookies])"
proof (induction "k - a" arbitrary: a evs)
  case 0
  then show ?case by simp
next
  case (Suc d)
  from Suc.prems have lt: "a < maxCookieScrollAttempts" by simp
  show ?case
  proof (cases "Suc a = k")
    case True
    with Suc.prems lt show ?thesis
      by (simp add: huntLoop_present)
  next
    case False
    with Suc.prems have ak: "Suc a < k" by simp
    with Suc.prems have ab: "findXWtmCookie (pageCookies (Suc a)) = Some None" by simp
    from ak Suc.prems have lt2: "Suc a < maxCookieScrollAttempts" by simp
    from Suc.hyps(2) have d: "d = k - Suc a" by simp
    from Suc.prems have rest: "\<forall>i. Suc a < i \<and> i < k \<longrightarrow> findXWtmCookie (pageCookies i) = Some None" by simp
    have u: "[Suc a..<k] = Suc a # [Suc (Suc a)..<k]"
      using ak by (simp add: upt_conv_Cons)
    from Suc.hyps(1) [OF d ak Suc.prems(2) Suc.prems(3) Suc.prems(4) rest]
    have "huntLoop pageCookies saveOk (Suc a) (evs @ [ScrollDown, Recheck (Suc a)] @ [ScrollDown]) =
       (Inr True, (evs @ [ScrollDown, Recheck (Suc a)] @ [ScrollDown])
          @ concat (map missedCycle [Suc (Suc a)..<k]) @ [ScrollDown, Recheck k, SaveCookies])" .
    with lt ab lt2 u show ?thesis
      by (simp add: huntLoop_absent missedCycle_def)
  qed
qed

lemma huntLoop_never:
  "a < maxCookieScrollAttempts \<Longrightarrow>
   (\<forall>i. a < i \<and> i \<le> maxCookieScrollAttempts \<longrightarrow> findXWtmCookie (pageCookies i) = Some None) \<Longrightarrow>
     huntLoop pageCookies saveOk a evs =
       (Inr False, evs @ concat (map missedCycle [Suc a..<maxCookieScrollAttempts])
                   @ [ScrollDown, Recheck maxCookieScrollAttempts])"
proof (induction "maxCookieScrollAttempts - a" arbitrary: a evs)
  case 0
  then show ?case by simp
next
  case (Suc d)
  from Suc.prems have ab: "findXWtmCookie (pageCookies (Suc a)) = Some None" by simp
  show ?case
  proof (cases "Suc a = maxCookieScrollAttempts")
    case True
    with Suc.prems ab show ?thesis
      by (simp add: huntLoop_absent huntLoop_stop)
  next
    case False
    with Suc.prems have lt2: "Suc a < maxCookieScrollAttempts" by simp
    from Suc.hyps(2) have d: "d = maxCookieScrollAttempts - Suc a" by simp
    from Suc.prems have rest:
      "\<forall>i. Suc a < i \<and> i \<le> maxCookieScrollAttempts \<longrightarrow> findXWtmCookie (pageCookies i) = Some None" by simp
    have u: "[Suc a..<maxCookieScrollAttempts] = Suc a # [Suc (Suc a)..<maxCookieScrollAttempts]"
      using lt2 by (simp add: upt_conv_Cons)
    from Suc.hyps(1) [OF d lt2 rest]
    have "huntLoop pageCookies saveOk (Suc a) (evs @ [ScrollDown, Recheck (Suc a)] @ [ScrollDown]) =
       (Inr False, (evs @ [ScrollDown, Recheck (Suc a)] @ [ScrollDown])
          @ concat (map missedCycle [Suc (Suc a)..<maxCookieScrollAttempts])
          @ [ScrollDown, Recheck maxCookieScrollAttempts])" .
    with Suc.prems(1) ab lt2 u show ?thesis
      by (simp add: huntLoop_absent missedCycle_def)
  qed
qed

lemma huntLoop_bound:
  "cycles (snd (huntLoop pageCookies saveOk a evs)) \<le> cycles evs + (maxCookieScrollAttempts - a)"
proof (induction "maxCookieScrollAttempts - a" arbitrary: a evs)
  case 0
  then show ?case by (simp add: huntLoop_stop)
next
  case (Suc d)
  then have lt: "a < maxCookieScrollAttempts" by simp
  from Suc.hyps(2) have d: "d = maxCookieScrollAttempts - Suc a" by simp
  show ?case
  proof (cases "findXWtmCookie (pageCookies (Suc a))")
    case None
    with lt show ?thesis by (simp add: huntLoop_throws cycles_def)
  next
    case (Some found)
    show ?thesis
    proof (cases found)
      case (Some c)
      with \<open>findXWtmCookie (pageCookies (Suc a)) = Some found\<close> lt show ?thesis
        by (simp add: huntLoop_present cycles_def)
    next
      case None
      with \<open>findXWtmCookie (pageCookies (Suc a)) = Some found\<close>
      have CookieAbsent: "findXWtmCookie (pageCookies (Suc a)) = Some None" by simp
    from Suc.hyps(1) [OF d]
    have "cycles (snd (huntLoop pageCookies saveOk (Suc a)
             (evs @ [ScrollDown, Recheck (Suc a)]
              @ (if Suc a < maxCookieScrollAttempts then [ScrollDown] else [])))) \<le>
          cycles (evs @ [ScrollDown, Recheck (Suc a)]
              @ (if Suc a < maxCookieScrollAttempts then [ScrollDown] else []))
          + (maxCookieScrollAttempts - Suc a)" .
      with lt CookieAbsent show ?thesis
        by (simp add: huntLoop_absent cycles_def)
    qed
  qed
qed

lemma cycles_missed: "cycles (concat (map missedCycle [a..<b])) = b - a"
proof (induction b)
  case 0
  show ?case by (simp add: cycles_def)
next
  case (Suc b)
  then show ?case
    by (cases "a \<le> b") (auto simp: cycles_def missedCycle_def)
qed

text \<open>
  Claim C8, amended. \<open>huntForCookies\<close>, whenever it is called, makes at most 5
  scroll-and-recheck cycles. When the rechecks of the cycles before \<open>k\<close> find no
  cookie, the recheck of cycle \<open>k\<close> finds it and the cookies can be saved, it
  returns true after exactly \<open>k\<close> cycles: each cycle before \<open>k\<close> scrolled, rechecked
  and scrolled further, cycle \<open>k\<close> scrolled, rechecked and saved. When all five
  rechecks find no cookie it returns false, a value and not an exception, after
  exactly 5 cycles, the last without the further scroll. The function is reached
  only from \<open>clickProductAndHandlePage\<close>, which nothing calls.
\<close>

theorem huntForCookies_cycles:
  "cycles (snd (huntForCookies pageCookies saveOk)) \<le> 5
   \<and> (1 \<le> k \<and> k \<le> 5 \<and> findXWtmCookie (pageCookies k) = Some (Some c) \<and> saveOk k
        \<and> (\<forall>i. 1 \<le> i \<and> i < k \<longrightarrow> findXWtmCookie (pageCookies i) = Some None) \<longrightarrow>
        huntForCookies pageCookies saveOk =
          (Inr True, concat (map missedCycle [1..<k]) @ [ScrollDown, Recheck k, SaveCookies])
        \<and> cycles (snd (huntForCookies pageCookies saveOk)) = k)
   \<and> ((\<forall>i. 1 \<le> i \<and> i \<le> 5 \<longrightarrow> findXWtmCookie (pageCookies i) = Some None) \<longrightarrow>
        huntForCookies pageCookies saveOk =
          (Inr False, concat (map missedCycle [1..<5]) @ [ScrollDown, Recheck 5])
        \<and> cycles (snd (huntForCookies pageCookies saveOk)) = 5)"
proof -
  have a: "cycles (snd (huntForCookies pageCookies saveOk)) \<le> 5"
    using huntLoop_bound [of pageCookies saveOk 0 "[]"]
    by (simp add: huntForCookies_def maxCookieScrollAttempts_def cycles_def)
  have b: "1 \<le> k \<and> k \<le> 5 \<and> findXWtmCookie (pageCookies k) = Some (Some c) \<and> saveOk k
        \<and> (\<forall>i. 1 \<le> i \<and> i < k \<longrightarrow> findXWtmCookie (pageCookies i) = Some None) \<longrightarrow>
        huntForCookies pageCookies saveOk =
          (Inr True, concat (map missedCycle [1..<k]) @ [ScrollDown, Recheck k, SaveCookies])
        \<and> cycles (snd (huntForCookies pageCookies saveOk)) = k"
  proof
    assume h: "1 \<le> k \<and> k \<le> 5 \<and> findXWtmCookie (pageCookies k) = Some (Some c) \<and> saveOk k
        \<and> (\<forall>i. 1 \<le> i \<and> i < k \<longrightarrow> findXWtmCookie (pageCookies i) = Some None)"
    then have p: "0 < k" "k \<le> maxCookieScrollAttempts" "findXWtmCookie (pageCookies k) = Some (Some c)" "saveOk k"
      "\<forall>i. 0 < i \<and> i < k \<longrightarrow> findXWtmCookie (pageCookies i) = Some None"
      by (simp_all add: maxCookieScrollAttempts_def)
    from huntLoop_found [of 0 k pageCookies c saveOk "[]", OF p]
    have e: "huntForCookies pageCookies saveOk =
          (Inr True, concat (map missedCycle [1..<k]) @ [ScrollDown, Recheck k, SaveCookies])"
      by (simp add: huntForCookies_def)
    have "cycles (concat (map missedCycle [1..<k]) @ [ScrollDown, Recheck k, SaveCookies]) =
        cycles (concat (map missedCycle [1..<k])) + 1"
      by (simp add: cycles_def)
    with p(1) have "cycles (snd (huntForCookies pageCookies saveOk)) = k"
      unfolding e by (simp add: cycles_missed)
    with e show "huntForCookies pageCookies saveOk =
          (Inr True, concat (map missedCycle [1..<k]) @ [ScrollDown, Recheck k, SaveCookies])
        \<and> cycles (snd (huntForCookies pageCookies saveOk)) = k"
      by (rule conjI)
  qed
  have c: "(\<forall>i. 1 \<le> i \<and> i \<le> 5 \<longrightarrow> findXWtmCookie (pageCookies i) = Some None) \<longrightarrow>
        huntForCookies pageCookies saveOk =
          (Inr False, concat (map missedCycle [1..<5]) @ [ScrollDown, Recheck 5])
        \<and> cycles (snd (huntForCookies pageCookies saveOk)) = 5"
  proof
    assume "\<forall>i. 1 \<le> i \<and> i \<le> 5 \<longrightarrow> findXWtmCookie (pageCookies i) = Some None"
    then have n: "\<forall>i. 0 < i \<and> i \<le> maxCookieScrollAttempts \<longrightarrow> findXWtmCookie (pageCookies i) = Some None"
      by (simp add: maxCookieScrollAttempts_def)
    have z: "0 < maxCookieScrollAttempts"
      by (simp add: maxCookieScrollAttempts_def)
    from huntLoop_never [of 0 pageCookies saveOk "[]", OF z n]
    have e: "huntForCookies pageCookies saveOk =
          (Inr False, concat (map missedCycle [1..<5]) @ [ScrollDown, Recheck 5])"
      by (simp add: huntForCookies_def maxCookieScrollAttempts_def)
    have "cycles (concat (map missedCycle [1..<5]) @ [ScrollDown, Recheck 5]) =
        cycles (concat (map missedCycle [1..<5])) + 1"
      by (simp add: cycles_def)
    then have "cycles (snd (huntForCookies pageCookies saveOk)) = 5"
      unfolding e by (simp add: cycles_missed)
    with e show "huntForCookies pageCookies saveOk =
          (Inr False, concat (map missedCycle [1..<5]) @ [ScrollDown, Recheck 5])
        \<and> cycles (snd (huntForCookies pageCookies saveOk)) = 5"
      by (rule conjI)
  qed
  show ?thesis
    by (rule conjI [OF a conjI [OF b c]])
qed

lemma missed_before_third:
  "concat (map missedCycle [1..<3]) =
     [ScrollDown, Recheck 1, ScrollDown, ScrollDown, Recheck 2, ScrollDown]"
  by (simp add: missedCycle_def upt_conv_Cons)

lemma missed_before_fifth:
  "concat (map missedCycle [1..<5]) =
     [ScrollDown, Recheck 1, ScrollDown, ScrollDown, Recheck 2, ScrollDown,
      ScrollDown, Recheck 3, ScrollDown, ScrollDown, Recheck 4, ScrollDown]"
  by (simp add: missedCycle_def upt_conv_Cons)

theorem huntForCookies_cycles_witness:
  "findXWtmCookie (presentFromThird 3) = Some (Some (portalCookie ''X-Wtm-Cpt-Tk'' ''t'')) \<and> findXWtmCookie (presentFromThird 1) = Some None
   \<and> findXWtmCookie (presentFromThird 2) = Some None \<and> savesAlways 3
   \<and> huntForCookies presentFromThird savesAlways =
       (Inr True,
        [ScrollDown, Recheck 1, ScrollDown, ScrollDown, Recheck 2, ScrollDown,
         ScrollDown, Recheck 3, SaveCookies])
   \<and> findXWtmCookie (neverPresent 1) = Some None \<and> findXWtmCookie (neverPresent 5) = Some None
   \<and> huntForCookies neverPresent savesAlways =
       (Inr False,
        [ScrollDown, Recheck 1, ScrollDown, ScrollDown, Recheck 2, ScrollDown,
         ScrollDown, Recheck 3, ScrollDown, ScrollDown, Recheck 4, ScrollDown,
         ScrollDown, Recheck 5])"
proof -
  have h: "(1::nat) \<le> 3 \<and> (3::nat) \<le> 5 \<and> findXWtmCookie (presentFromThird 3) = Some (Some (portalCookie ''X-Wtm-Cpt-Tk'' ''t'')) \<and> savesAlways 3
      \<and> (\<forall>i. 1 \<le> i \<and> i < 3 \<longrightarrow> findXWtmCookie (presentFromThird i) = Some None)"
    by (simp add: presentFromThird_def savesAlways_def findXWtmCookie_def portalCookie_name)
  have n: "\<forall>i. 1 \<le> i \<and> i \<le> 5 \<longrightarrow> findXWtmCookie (neverPresent i) = Some None"
    by (simp add: neverPresent_def findXWtmCookie_def portalCookie_name)
  from huntForCookies_cycles [where pageCookies = presentFromThird and saveOk = savesAlways
      and k = 3 and c = "portalCookie ''X-Wtm-Cpt-Tk'' ''t''",
       THEN conjunct2, THEN conjunct1,
      THEN mp, OF h, THEN conjunct1]
  have a: "huntForCookies presentFromThird savesAlways =
       (Inr True,
        [ScrollDown, Recheck 1, ScrollDown, ScrollDown, Recheck 2, ScrollDown,
         ScrollDown, Recheck 3, SaveCookies])"
    by (simp only: missed_before_third append.simps)
  from huntForCookies_cycles [where pageCookies = neverPresent and saveOk = savesAlways
      and k = 0 and c = "portalCookie ''X-Wtm-Cpt-Tk'' ''t''",
       THEN conjunct2, THEN conjunct2,
      THEN mp, OF n, THEN conjunct1]
  have b: "huntForCookies neverPresent savesAlways =
       (Inr False,
        [ScrollDown, Recheck 1, ScrollDown, ScrollDown, Recheck 2, ScrollDown,
         ScrollDown, Recheck 3, ScrollDown, ScrollDown, Recheck 4, ScrollDown,
         ScrollDown, Recheck 5])"
    by (simp only: missed_before_fifth append.simps)
  have f: "findXWtmCookie (presentFromThird 3) = Some (Some (portalCookie ''X-Wtm-Cpt-Tk'' ''t''))" "findXWtmCookie (presentFromThird 1) = Some None"
    "findXWtmCookie (presentFromThird 2) = Some None" "savesAlways 3"
    by (simp_all add: presentFromThird_def savesAlways_def findXWtmCookie_def portalCookie_name)
  have g: "findXWtmCookie (neverPresent 1) = Some None" "findXWtmCookie (neverPresent 5) = Some None"
    by (simp_all add: neverPresent_def findXWtmCookie_def portalCookie_name)
  show ?thesis
    by (rule conjI [OF f(1) conjI [OF f(2) conjI [OF f(3) conjI [OF f(4) conjI [OF a
          conjI [OF g(1) conjI [OF g(2) b]]]]]]])
qed

lemma shoppingHome_url: "str_includes (pageUrl shoppingHome) ''shopping''"
  by (simp add: shoppingHome_def)

text \<open>
  Claim C8 as stated fails: it is about what the acquisition does, and the
  acquisition does not hunt. \<open>findProductAndGetCookies\<close>, the step of the acquisition
  that harvests the cookies, never looks for \<open>X-Wtm-Cpt-Tk\<close>: on a shopping page
  whose harvest holds no such cookie it harvests, saves and clicks, makes no
  scroll-and-recheck cycle and ends without an error, so the attempt does not give
  up either.
\<close>

theorem acquisition_does_not_hunt_counterexample:
  "findXWtmCookie (harvested shoppingHome) = Some None
   \<and> harvested shoppingHome = Some [portalCookie ''NNB'' ''abc'', portalCookie ''tok'' ''xSUSy'']
   \<and> findProductAndGetCookies shoppingHome =
       ([WaitBeforeBehaviour, RunExtendedBehaviour, HarvestCookies,
         SaveFiltered [portalCookie ''NNB'' ''abc''], WaitProductLinks, ClickProduct], None)"
proof -
  have b: "harvested shoppingHome = Some [portalCookie ''NNB'' ''abc'', portalCookie ''tok'' ''xSUSy'']"
    by (simp add: shoppingHome_def)
  have a: "findXWtmCookie (harvested shoppingHome) = Some None"
    by (simp add: b findXWtmCookie_def portalCookie_name)
  have c: "findProductAndGetCookies shoppingHome =
       ([WaitBeforeBehaviour, RunExtendedBehaviour, HarvestCookies,
         SaveFiltered [portalCookie ''NNB'' ''abc''], WaitProductLinks, ClickProduct], None)"
    unfolding findProductAndGetCookies_def
    by (simp add: shoppingHome_url b shoppingHome_filtered)
      (simp add: shoppingHome_def behaviourSteps_def clickSteps_def)
  show ?thesis
    by (rule conjI [OF a conjI [OF b c]])
qed

subsection \<open>The fetch loop\<close>

lemma splitOn_first: "splitOn d s ! 0 = takeWhile (\<lambda>c. c \<noteq> d) s"
  by (induction s) (auto split: list.splits simp: splitOn_nonempty)

lemma splitProductUrl_string:
  "splitProductUrl (UrlString s) = Inr (UrlString (takeWhile (\<lambda>c. c \<noteq> CHR ''?'') s))"
  by (simp add: splitProductUrl_def splitOn_first)


lemma scrapeLoop_done:
  "scrapeLoop env attempt productUrl (Some r) events = (Inr (Extracted r), events)"
  by (subst scrapeLoop.simps) simp

lemma scrapeLoop_first:
  "scrapeLoop env 0 url None events =
     scrapeLoop env (Suc 0) url (attemptResult (env (Suc 0) url))
       (events @ attemptEvents (Suc 0) url (env (Suc 0) url))"
  by (subst scrapeLoop.simps) (simp add: MAX_RETRIES_def)

lemma scrapeLoop_second:
  "scrapeLoop env (Suc 0) (UrlString s) None events =
     scrapeLoop env (Suc (Suc 0)) (UrlString (takeWhile (\<lambda>c. c \<noteq> CHR ''?'') s))
       (attemptResult (env (Suc (Suc 0)) (UrlString (takeWhile (\<lambda>c. c \<noteq> CHR ''?'') s))))
       (events @ attemptEvents (Suc (Suc 0)) (UrlString (takeWhile (\<lambda>c. c \<noteq> CHR ''?'') s))
                   (env (Suc (Suc 0)) (UrlString (takeWhile (\<lambda>c. c \<noteq> CHR ''?'') s))))"
  by (subst scrapeLoop.simps) (simp add: MAX_RETRIES_def splitProductUrl_string)


lemma scrapeLoop_third:
  "scrapeLoop env (Suc (Suc 0)) url None events =
     scrapeLoop env (Suc (Suc (Suc 0))) url (attemptResult (env (Suc (Suc (Suc 0))) url))
       (events @ attemptEvents (Suc (Suc (Suc 0))) url (env (Suc (Suc (Suc 0))) url))"
  by (subst scrapeLoop.simps) (simp add: MAX_RETRIES_def)

lemma scrapeLoop_exhausted:
  "scrapeLoop env (Suc (Suc (Suc 0))) url None events =
     (Inr (Failed \<lparr>failError = ''SMARTSTORE_ACCESS_FAILED'', failMessage = failureMessage,
                   failProductUrl = url\<rparr>), events)"
  by (subst scrapeLoop.simps) (simp add: MAX_RETRIES_def)

lemma scrape_unrolled:
  "scrape env (UrlString url) =
     (case attemptResult (env 1 (UrlString url)) of
        Some r \<Rightarrow> (Inr (Extracted r), attemptEvents 1 (UrlString url) (env 1 (UrlString url)))
      | None \<Rightarrow>
          (case attemptResult (env 2 (UrlString (takeWhile (\<lambda>c. c \<noteq> CHR ''?'') url))) of
             Some r \<Rightarrow>
               (Inr (Extracted r),
                attemptEvents 1 (UrlString url) (env 1 (UrlString url)) @
                attemptEvents 2 (UrlString (takeWhile (\<lambda>c. c \<noteq> CHR ''?'') url))
                  (env 2 (UrlString (takeWhile (\<lambda>c. c \<noteq> CHR ''?'') url))))
           | None \<Rightarrow>
               (case attemptResult (env 3 (UrlString (takeWhile (\<lambda>c. c \<noteq> CHR ''?'') url))) of
                  Some r \<Rightarrow>
                    (Inr (Extracted r),
                     attemptEvents 1 (UrlString url) (env 1 (UrlString url)) @
                     attemptEvents 2 (UrlString (takeWhile (\<lambda>c. c \<noteq> CHR ''?'') url))
                       (env 2 (UrlString (takeWhile (\<lambda>c. c \<noteq> CHR ''?'') url))) @
                     attemptEvents 3 (UrlString (takeWhile (\<lambda>c. c \<noteq> CHR ''?'') url))
                       (env 3 (UrlString (takeWhile (\<lambda>c. c \<noteq> CHR ''?'') url))))
                | None \<Rightarrow>
                    (Inr (Failed \<lparr>failError = ''SMARTSTORE_ACCESS_FAILED'',
                                  failMessage = failureMessage,
                                  failProductUrl =
                                    UrlString (takeWhile (\<lambda>c. c \<noteq> CHR ''?'') url)\<rparr>),
                     attemptEvents 1 (UrlString url) (env 1 (UrlString url)) @
                     attemptEvents 2 (UrlString (takeWhile (\<lambda>c. c \<noteq> CHR ''?'') url))
                       (env 2 (UrlString (takeWhile (\<lambda>c. c \<noteq> CHR ''?'') url))) @
                     attemptEvents 3 (UrlString (takeWhile (\<lambda>c. c \<noteq> CHR ''?'') url))
                       (env 3 (UrlString (takeWhile (\<lambda>c. c \<noteq> CHR ''?'') url)))))))"
proof (cases "attemptResult (env 1 (UrlString url))")
  case (Some r)
  then show ?thesis
    by (simp add: scrape_def numeral_2_eq_2 numeral_3_eq_3 scrapeLoop_first scrapeLoop_done)
next
  case n1: None
  show ?thesis
  proof (cases "attemptResult (env 2 (UrlString (takeWhile (\<lambda>c. c \<noteq> CHR ''?'') url)))")
    case (Some r)
    with n1 show ?thesis
      by (simp add: scrape_def numeral_2_eq_2 numeral_3_eq_3 scrapeLoop_first scrapeLoop_second
          scrapeLoop_done)
  next
    case n2: None
    show ?thesis
    proof (cases "attemptResult (env 3 (UrlString (takeWhile (\<lambda>c. c \<noteq> CHR ''?'') url)))")
      case (Some r)
      with n1 n2 show ?thesis
        by (simp add: scrape_def numeral_2_eq_2 numeral_3_eq_3 scrapeLoop_first scrapeLoop_second
            scrapeLoop_third scrapeLoop_done)
    next
      case None
      with n1 n2 show ?thesis
        by (simp add: scrape_def numeral_2_eq_2 numeral_3_eq_3 scrapeLoop_first scrapeLoop_second
            scrapeLoop_third scrapeLoop_exhausted)
    qed
  qed
qed



lemma Navigate_attemptEvents:
  "Navigate m u \<in> set (attemptEvents n url outcome) \<Longrightarrow> m = n \<and> u = url"
  by (cases outcome) (auto simp: attemptEvents_def)

lemma takeWhile_first_query:
  "CHR ''?'' \<notin> set a \<Longrightarrow> takeWhile (\<lambda>c. c \<noteq> CHR ''?'') (a @ ''?'' @ b) = a"
  by (induction a) auto



lemma strip_example:
  "takeWhile (\<lambda>c. c \<noteq> CHR ''?'') ''https://smartstore.naver.com/p/1?NaPm=x'' = ''https://smartstore.naver.com/p/1''"
  by simp





text \<open>
  Claim C4. Whatever the attempts do, the URL handed to the navigation on attempt 1
  is the requested URL, and on attempts 2 and 3 it is the requested URL cut at its
  first question mark. When every attempt fails for want of the page state, the
  three navigations are exactly these.
\<close>

theorem scrape_navigated_urls:
  "(Navigate n u \<in> set (snd (scrape env (UrlString url))) \<longrightarrow>
      (n = 1 \<and> u = UrlString url)
      \<or> ((n = 2 \<or> n = 3) \<and> u = UrlString (takeWhile (\<lambda>c. c \<noteq> CHR ''?'') url)))
   \<and> ((\<forall>n u. env n u = StateMissing) \<longrightarrow>
        filter isNavigate (snd (scrape env (UrlString url))) =
          [Navigate 1 (UrlString url),
           Navigate 2 (UrlString (takeWhile (\<lambda>c. c \<noteq> CHR ''?'') url)),
           Navigate 3 (UrlString (takeWhile (\<lambda>c. c \<noteq> CHR ''?'') url))])
   \<and> (url = a @ ''?'' @ b \<and> CHR ''?'' \<notin> set a \<longrightarrow> takeWhile (\<lambda>c. c \<noteq> CHR ''?'') url = a)"
proof (intro conjI impI)
  assume "Navigate n u \<in> set (snd (scrape env (UrlString url)))"
  then show "(n = 1 \<and> u = UrlString url)
      \<or> ((n = 2 \<or> n = 3) \<and> u = UrlString (takeWhile (\<lambda>c. c \<noteq> CHR ''?'') url))"
    by (auto simp: scrape_unrolled split: option.splits dest!: Navigate_attemptEvents)
next
  assume "\<forall>n u. env n u = StateMissing"
  then show "filter isNavigate (snd (scrape env (UrlString url))) =
          [Navigate 1 (UrlString url),
           Navigate 2 (UrlString (takeWhile (\<lambda>c. c \<noteq> CHR ''?'') url)),
           Navigate 3 (UrlString (takeWhile (\<lambda>c. c \<noteq> CHR ''?'') url))]"
    by (simp add: scrape_unrolled attemptResult_def attemptEvents_def)
next
  assume "url = a @ ''?'' @ b \<and> CHR ''?'' \<notin> set a"
  then show "takeWhile (\<lambda>c. c \<noteq> CHR ''?'') url = a"
    using takeWhile_first_query [of a b] by simp
qed

theorem scrape_navigated_urls_witness:
  "(\<forall>n u. alwaysMissing n u = StateMissing)
   \<and> filter isNavigate
       (snd (scrape alwaysMissing (UrlString ''https://smartstore.naver.com/p/1?NaPm=x''))) =
       [Navigate 1 (UrlString ''https://smartstore.naver.com/p/1?NaPm=x''),
        Navigate 2 (UrlString ''https://smartstore.naver.com/p/1''),
        Navigate 3 (UrlString ''https://smartstore.naver.com/p/1'')]
   \<and> Navigate 2 (UrlString ''https://smartstore.naver.com/p/1'')
       \<in> set (snd (scrape alwaysMissing (UrlString ''https://smartstore.naver.com/p/1?NaPm=x'')))
   \<and> ''https://smartstore.naver.com/p/1'' =
       takeWhile (\<lambda>c. c \<noteq> CHR ''?'') ''https://smartstore.naver.com/p/1?NaPm=x''"
proof -
  let ?u = "''https://smartstore.naver.com/p/1?NaPm=x''"
  let ?s = "''https://smartstore.naver.com/p/1''"
  have h: "\<forall>n u. alwaysMissing n u = (StateMissing :: unit attempt_outcome)"
    by (simp add: alwaysMissing_def)
  from scrape_navigated_urls [of _ _ alwaysMissing ?u, THEN conjunct2, THEN conjunct1, THEN mp, OF h]
  have f: "filter isNavigate (snd (scrape alwaysMissing (UrlString ?u))) =
       [Navigate 1 (UrlString ?u), Navigate 2 (UrlString ?s), Navigate 3 (UrlString ?s)]"
    by (simp only: strip_example)
  have "Navigate 2 (UrlString ?s) \<in> set (filter isNavigate (snd (scrape alwaysMissing (UrlString ?u))))"
    by (simp only: f) simp
  then have m: "Navigate 2 (UrlString ?s) \<in> set (snd (scrape alwaysMissing (UrlString ?u)))"
    by simp
  from scrape_navigated_urls [of 2 "UrlString ?s" alwaysMissing ?u, THEN conjunct1, THEN mp, OF m]
  have s: "?s = takeWhile (\<lambda>c. c \<noteq> CHR ''?'') ?u"
    by simp
  from h f m s show ?thesis by (intro conjI)
qed


subsection \<open>The acquisition loop\<close>

lemma initAttempt_fst: "fst (initAttempt n outcome) = (outcome = BrowseReturns)"
  by (cases outcome) (simp_all add: initAttempt_def browseNaverAndGetCookies_def)

lemma initAttempt_launches: "length (filter isLaunchCall (snd (initAttempt n outcome))) = 1"
  by (cases outcome) (simp_all add: initAttempt_def browseNaverAndGetCookies_def)

lemma initAttempt_closes:
  "length (filter isCloseCall (snd (initAttempt n outcome))) = closeCallsOf outcome"
  by (cases outcome) (simp_all add: initAttempt_def browseNaverAndGetCookies_def)

lemma initLoop_success: "initLoop env attempt True events = (True, events)"
  by (subst initLoop.simps) simp

lemma initLoop_first:
  "initLoop env 0 False events =
     (if env (Suc 0) = BrowseReturns
      then (True, events @ snd (initAttempt (Suc 0) (env (Suc 0))))
      else initLoop env (Suc 0) False
             (events @ snd (initAttempt (Suc 0) (env (Suc 0))) @ [RetryDelay (Suc 0)]))"
  by (subst initLoop.simps) (simp add: MAX_RETRIES_def initAttempt_fst initLoop_success)

lemma initLoop_second:
  "initLoop env (Suc 0) False events =
     (if env (Suc (Suc 0)) = BrowseReturns
      then (True, events @ snd (initAttempt (Suc (Suc 0)) (env (Suc (Suc 0)))))
      else initLoop env (Suc (Suc 0)) False
             (events @ snd (initAttempt (Suc (Suc 0)) (env (Suc (Suc 0))))
              @ [RetryDelay (Suc (Suc 0))]))"
  by (subst initLoop.simps) (simp add: MAX_RETRIES_def initAttempt_fst initLoop_success)

lemma initLoop_third:
  "initLoop env (Suc (Suc 0)) False events =
     (if env (Suc (Suc (Suc 0))) = BrowseReturns
      then (True, events @ snd (initAttempt (Suc (Suc (Suc 0))) (env (Suc (Suc (Suc 0))))))
      else (False, events @ snd (initAttempt (Suc (Suc (Suc 0))) (env (Suc (Suc (Suc 0)))))))"
  by (subst initLoop.simps) (simp add: MAX_RETRIES_def initAttempt_fst initLoop_success)

lemma initializeCookies_all_fail:
  assumes "env 1 \<noteq> BrowseReturns" "env 2 \<noteq> BrowseReturns" "env 3 \<noteq> BrowseReturns"
  shows "initializeCookies env =
     (False, snd (initAttempt 1 (env 1)) @ [RetryDelay 1] @ snd (initAttempt 2 (env 2))
             @ [RetryDelay 2] @ snd (initAttempt 3 (env 3)))"
  using assms
  by (simp add: initializeCookies_def numeral_2_eq_2 numeral_3_eq_3 initLoop_first initLoop_second
      initLoop_third)

text \<open>
  Claim C6, amended. When each of the three attempts of \<open>initializeCookies\<close> fails,
  it returns false, having called \<open>launch\<close> exactly 3 times. It has called
  \<open>closeBrowser\<close> twice in an attempt whose browsing step threw, once in an attempt
  whose page setup threw, and not at all in an attempt whose launch threw, each time
  before the next launch.
\<close>

theorem initializeCookies_exhausted:
  "env 1 \<noteq> BrowseReturns \<and> env 2 \<noteq> BrowseReturns \<and> env 3 \<noteq> BrowseReturns \<longrightarrow>
     fst (initializeCookies env) = False
     \<and> length (filter isLaunchCall (snd (initializeCookies env))) = 3
     \<and> length (filter isCloseCall (snd (initializeCookies env))) =
         closeCallsOf (env 1) + closeCallsOf (env 2) + closeCallsOf (env 3)
     \<and> snd (initializeCookies env) =
         snd (initAttempt 1 (env 1)) @ [RetryDelay 1] @ snd (initAttempt 2 (env 2))
         @ [RetryDelay 2] @ snd (initAttempt 3 (env 3))"
proof
  assume h: "env 1 \<noteq> BrowseReturns \<and> env 2 \<noteq> BrowseReturns \<and> env 3 \<noteq> BrowseReturns"
  then have e: "initializeCookies env =
     (False, snd (initAttempt 1 (env 1)) @ [RetryDelay 1] @ snd (initAttempt 2 (env 2))
             @ [RetryDelay 2] @ snd (initAttempt 3 (env 3)))"
    by (simp add: initializeCookies_all_fail)
  show "fst (initializeCookies env) = False
     \<and> length (filter isLaunchCall (snd (initializeCookies env))) = 3
     \<and> length (filter isCloseCall (snd (initializeCookies env))) =
         closeCallsOf (env 1) + closeCallsOf (env 2) + closeCallsOf (env 3)
     \<and> snd (initializeCookies env) =
         snd (initAttempt 1 (env 1)) @ [RetryDelay 1] @ snd (initAttempt 2 (env 2))
         @ [RetryDelay 2] @ snd (initAttempt 3 (env 3))"
    unfolding e by (simp add: initAttempt_launches initAttempt_closes)
qed

theorem initializeCookies_exhausted_witness:
  "alwaysBrowseThrows 1 \<noteq> BrowseReturns \<and> alwaysBrowseThrows 2 \<noteq> BrowseReturns
   \<and> alwaysBrowseThrows 3 \<noteq> BrowseReturns
   \<and> fst (initializeCookies alwaysBrowseThrows) = False
   \<and> length (filter isLaunchCall (snd (initializeCookies alwaysBrowseThrows))) = 3"
proof -
  have h: "alwaysBrowseThrows 1 \<noteq> BrowseReturns \<and> alwaysBrowseThrows 2 \<noteq> BrowseReturns
     \<and> alwaysBrowseThrows 3 \<noteq> BrowseReturns"
    by (simp add: alwaysBrowseThrows_def)
  note r = initializeCookies_exhausted [of alwaysBrowseThrows, THEN mp, OF h]
  from h r [THEN conjunct1] r [THEN conjunct2, THEN conjunct1] show ?thesis
    by (intro conjI) simp_all
qed

text \<open>
  Claim C6 as stated fails: three attempts that throw in the browsing step make 3
  launches and 6 calls of \<open>closeBrowser\<close>, and three attempts whose launch throws
  make 3 launches and no call of \<open>closeBrowser\<close>; neither is one close per attempt.
\<close>

theorem initializeCookies_close_counterexample:
  "fst (initializeCookies alwaysBrowseThrows) = False
   \<and> length (filter isLaunchCall (snd (initializeCookies alwaysBrowseThrows))) = 3
   \<and> length (filter isCloseCall (snd (initializeCookies alwaysBrowseThrows))) = 6
   \<and> fst (initializeCookies alwaysLaunchThrows) = False
   \<and> length (filter isLaunchCall (snd (initializeCookies alwaysLaunchThrows))) = 3
   \<and> length (filter isCloseCall (snd (initializeCookies alwaysLaunchThrows))) = 0"
proof -
  have a: "initializeCookies alwaysBrowseThrows =
      (False, [LaunchCall 1, CloseCall 1, CloseCall 1, RetryDelay 1,
               LaunchCall 2, CloseCall 2, CloseCall 2, RetryDelay 2,
               LaunchCall 3, CloseCall 3, CloseCall 3])"
    by (simp add: initializeCookies_all_fail alwaysBrowseThrows_def initAttempt_def
        browseNaverAndGetCookies_def)
  have b: "initializeCookies alwaysLaunchThrows =
      (False, [LaunchCall 1, RetryDelay 1, LaunchCall 2, RetryDelay 2, LaunchCall 3])"
    by (simp add: initializeCookies_all_fail alwaysLaunchThrows_def initAttempt_def)
  show ?thesis unfolding a b by simp
qed


end
